theory Spec2Isabelle
  imports Complex_Main
begin

section \<open>JavaScript numbers\<close>

text \<open>
  The program computes with JavaScript numbers (IEEE 754 doubles).  A number is modelled
  as a real number or one of the three non-finite values the program tests for with
  \<^verbatim>\<open>Number.isFinite\<close>.  Arithmetic on finite operands is exact (no rounding to 53 bits,
  no underflow, one zero only), but a result whose magnitude reaches the overflow
  threshold of the double format becomes an infinity, division by zero gives an infinity
  or NaN, and NaN propagates and fails every comparison, as in the language.

  The statements on the solvers are put in terms of the values that the program computes
  (the width in metres, the pressure drop of an evaluated midpoint, the RMS residual of a
  round), so that they do not rest on the arithmetic being exact.  The example runs and the
  round trip of the last section are computed in this exact arithmetic.
\<close>

datatype num = Fin real | PInf | NInf | NaN

definition ovf :: real where
  "ovf = 2 ^ 1024 - 2 ^ 970"

definition rnd :: "real \<Rightarrow> num" where
  "rnd r = (if ovf \<le> r then PInf else if r \<le> - ovf then NInf else Fin r)"

fun isFinite :: "num \<Rightarrow> bool" where
  "isFinite (Fin r) = True"
| "isFinite _ = False"

text \<open>Truthiness of a number: \<^verbatim>\<open>0\<close> and \<^verbatim>\<open>NaN\<close> are falsy.\<close>

fun truthy :: "num \<Rightarrow> bool" where
  "truthy (Fin r) = (r \<noteq> 0)"
| "truthy PInf = True"
| "truthy NInf = True"
| "truthy NaN = False"

fun nneg :: "num \<Rightarrow> num" where
  "nneg (Fin r) = Fin (- r)"
| "nneg PInf = NInf"
| "nneg NInf = PInf"
| "nneg NaN = NaN"

fun nadd :: "num \<Rightarrow> num \<Rightarrow> num" where
  "nadd NaN y = NaN"
| "nadd x NaN = NaN"
| "nadd (Fin a) (Fin b) = rnd (a + b)"
| "nadd (Fin a) y = y"
| "nadd x (Fin b) = x"
| "nadd PInf PInf = PInf"
| "nadd NInf NInf = NInf"
| "nadd PInf NInf = NaN"
| "nadd NInf PInf = NaN"

definition nsub :: "num \<Rightarrow> num \<Rightarrow> num" where
  "nsub x y = nadd x (nneg y)"

text \<open>The sign of an infinite product or quotient, from a finite non-zero factor.\<close>

definition inf_of_sign :: "bool \<Rightarrow> num" where
  "inf_of_sign pos = (if pos then PInf else NInf)"

fun nmul :: "num \<Rightarrow> num \<Rightarrow> num" where
  "nmul NaN y = NaN"
| "nmul x NaN = NaN"
| "nmul (Fin a) (Fin b) = rnd (a * b)"
| "nmul (Fin a) PInf = (if a = 0 then NaN else inf_of_sign (0 < a))"
| "nmul (Fin a) NInf = (if a = 0 then NaN else inf_of_sign (a < 0))"
| "nmul PInf (Fin b) = (if b = 0 then NaN else inf_of_sign (0 < b))"
| "nmul NInf (Fin b) = (if b = 0 then NaN else inf_of_sign (b < 0))"
| "nmul PInf PInf = PInf"
| "nmul NInf NInf = PInf"
| "nmul PInf NInf = NInf"
| "nmul NInf PInf = NInf"

fun ndiv :: "num \<Rightarrow> num \<Rightarrow> num" where
  "ndiv NaN y = NaN"
| "ndiv x NaN = NaN"
| "ndiv (Fin a) (Fin b) =
     (if b = 0 then (if a = 0 then NaN else inf_of_sign (0 < a)) else rnd (a / b))"
| "ndiv (Fin a) y = Fin 0"
| "ndiv PInf (Fin b) = inf_of_sign (0 \<le> b)"
| "ndiv NInf (Fin b) = inf_of_sign (b < 0)"
| "ndiv x y = NaN"

fun nlt :: "num \<Rightarrow> num \<Rightarrow> bool" where
  "nlt NaN y = False"
| "nlt x NaN = False"
| "nlt (Fin a) (Fin b) = (a < b)"
| "nlt x NInf = False"
| "nlt PInf y = False"
| "nlt NInf y = True"
| "nlt x PInf = True"

fun nle :: "num \<Rightarrow> num \<Rightarrow> bool" where
  "nle NaN y = False"
| "nle x NaN = False"
| "nle (Fin a) (Fin b) = (a \<le> b)"
| "nle NInf y = True"
| "nle x PInf = True"
| "nle x NInf = False"
| "nle PInf y = False"

definition ngt :: "num \<Rightarrow> num \<Rightarrow> bool" where
  "ngt x y = nlt y x"

text \<open>\<^verbatim>\<open>Math.abs\<close>, \<^verbatim>\<open>Math.max\<close>, \<^verbatim>\<open>Math.exp\<close>, \<^verbatim>\<open>Math.log10\<close>, \<^verbatim>\<open>Math.sqrt\<close>.\<close>

fun nabs :: "num \<Rightarrow> num" where
  "nabs (Fin r) = Fin \<bar>r\<bar>"
| "nabs NaN = NaN"
| "nabs x = PInf"

definition nmax :: "num \<Rightarrow> num \<Rightarrow> num" where
  "nmax x y = (if x = NaN \<or> y = NaN then NaN else if nlt x y then y else x)"

fun nexp :: "num \<Rightarrow> num" where
  "nexp (Fin r) = rnd (exp r)"
| "nexp PInf = PInf"
| "nexp NInf = Fin 0"
| "nexp NaN = NaN"

fun nlog10 :: "num \<Rightarrow> num" where
  "nlog10 (Fin r) = (if r < 0 then NaN else if r = 0 then NInf else Fin (log 10 r))"
| "nlog10 PInf = PInf"
| "nlog10 x = NaN"

fun nsqrt :: "num \<Rightarrow> num" where
  "nsqrt (Fin r) = (if r < 0 then NaN else Fin (sqrt r))"
| "nsqrt PInf = PInf"
| "nsqrt x = NaN"

text \<open>
  \<^verbatim>\<open>Math.pow(x, y)\<close> for the exponents the program passes: finite, positive literals
  (\<^verbatim>\<open>1.5\<close>, \<^verbatim>\<open>1.11\<close>, \<^verbatim>\<open>2\<close>).  A negative base with a non-integer exponent is NaN;
  with an integer exponent the sign follows the exponent's parity.
\<close>

fun npow :: "num \<Rightarrow> real \<Rightarrow> num" where
  "npow NaN y = NaN"
| "npow PInf y = PInf"
| "npow NInf y = (if y \<in> \<int> \<and> odd \<lfloor>y\<rfloor> then NInf else PInf)"
| "npow (Fin x) y =
     (if 0 < x then rnd (x powr y)
      else if x = 0 then Fin 0
      else if y \<in> \<int> then rnd (if odd \<lfloor>y\<rfloor> then - (\<bar>x\<bar> powr y) else \<bar>x\<bar> powr y)
      else NaN)"

section \<open>Units and physics helpers\<close>

definition mmToM :: "num \<Rightarrow> num" where
  "mmToM mm = ndiv mm (Fin 1000)"

definition mToMm :: "num \<Rightarrow> num" where
  "mToMm m = nmul m (Fin 1000)"

definition lsToM3s :: "num \<Rightarrow> num" where
  "lsToM3s ls = nmul ls (Fin 0.001)"

definition m3hToM3s :: "num \<Rightarrow> num" where
  "m3hToM3s m3h = ndiv m3h (Fin 3600)"

text \<open>\<^verbatim>\<open>safeNum\<close> on a value that already is a number: non-finite values become the fallback.\<close>

definition safeNum :: "num \<Rightarrow> num \<Rightarrow> num" where
  "safeNum v fallback = (if isFinite v then v else fallback)"

definition saturationVaporPressurePa :: "num \<Rightarrow> num" where
  "saturationVaporPressurePa Tc =
     nmul (Fin 610.94) (nexp (ndiv (nmul (Fin 17.625) Tc) (nadd (Fin 243.04) Tc)))"

definition moistAirDensity :: "num \<Rightarrow> num \<Rightarrow> num \<Rightarrow> num" where
  "moistAirDensity pressurePa Tc RHpercent =
     (let T = nadd Tc (Fin 273.15);
          Rd = Fin 287.058;
          Rv = Fin 461.495;
          es = saturationVaporPressurePa Tc;
          pv = nmul (ndiv RHpercent (Fin 100)) es;
          pd = nmax (nsub pressurePa pv) (Fin 0)
      in nadd (ndiv pd (nmul Rd T)) (ndiv pv (nmul Rv T)))"

definition dynamicViscosityAir :: "num \<Rightarrow> num" where
  "dynamicViscosityAir Tc =
     (let T = nadd Tc (Fin 273.15);
          mu0 = Fin 0.00001716;
          T0 = Fin 273.15;
          S = Fin 110.4
      in nmul (nmul mu0 (npow (ndiv T T0) 1.5)) (ndiv (nadd T0 S) (nadd T S)))"

definition haalandFrictionFactor :: "num \<Rightarrow> num \<Rightarrow> num" where
  "haalandFrictionFactor Rey eps_over_D =
     (if \<not> isFinite Rey \<or> nle Rey (Fin 0) then NaN
      else if nlt Rey (Fin 2300) then ndiv (Fin 64.0) Rey
      else let A = nadd (npow (ndiv eps_over_D (Fin 3.7)) 1.11) (ndiv (Fin 6.9) Rey)
           in ndiv (Fin 1.0) (npow (nmul (Fin (- 1.8)) (nlog10 A)) 2))"

definition rectArea_m2_from_mm :: "num \<Rightarrow> num \<Rightarrow> num" where
  "rectArea_m2_from_mm w_mm h_mm =
     nmax (Fin 0) (nmul (ndiv w_mm (Fin 1000)) (ndiv h_mm (Fin 1000)))"

definition rectPerimeter_m_from_mm :: "num \<Rightarrow> num \<Rightarrow> num" where
  "rectPerimeter_m_from_mm w_mm h_mm =
     nmul (Fin 2) (nadd (ndiv w_mm (Fin 1000)) (ndiv h_mm (Fin 1000)))"

text \<open>The roughness table; a material that is not a key falls back to \<^verbatim>\<open>0.00015\<close>.\<close>

definition ROUGHNESS :: "string \<rightharpoonup> num" where
  "ROUGHNESS = map_of
     [(''Galvanised steel'', Fin 0.00015),
      (''Mild steel'', Fin 0.000045),
      (''Aluminium'', Fin 0.0000018),
      (''PVC'', Fin 0.0000005)]"

section \<open>The duct evaluation\<close>

record calc =
  cA :: num
  cDh :: num
  cV :: num
  cRe :: num
  cf :: num
  dp_per_m :: num
  crho :: num
  cmu :: num
  velocityPressure :: num
  eqDiameter :: num

definition calcRectNums :: "num \<Rightarrow> num \<Rightarrow> num \<Rightarrow> num \<Rightarrow> num \<Rightarrow> string \<Rightarrow> calc" where
  "calcRectNums w_mm h_mm Q_m3s T RH mat =
     (let p_atm = Fin 101325;
          rho = moistAirDensity p_atm T RH;
          mu = dynamicViscosityAir T;
          A = rectArea_m2_from_mm w_mm h_mm;
          P = rectPerimeter_m_from_mm w_mm h_mm;
          Dh = (if ngt A (Fin 0) then ndiv (nmul (Fin 4) A) P else Fin 0);
          V = (if ngt A (Fin 0) then ndiv Q_m3s A else Fin 0);
          Rey = ndiv (nmul (nmul rho (nabs V)) Dh) mu;
          eps = (case ROUGHNESS mat of Some e \<Rightarrow> e | None \<Rightarrow> Fin 0.00015);
          f = haalandFrictionFactor Rey (ndiv eps (nmax Dh (Fin 0.000000001)));
          dp = (if ngt Dh (Fin 0)
                then ndiv (nmul f (nmul (nmul rho V) V)) (nmul (Fin 2) Dh)
                else PInf);
          vp = nmul (nmul (nmul (Fin 0.5) rho) V) V
      in \<lparr> cA = A, cDh = Dh, cV = V, cRe = Rey, cf = f, dp_per_m = dp,
           crho = rho, cmu = mu, velocityPressure = vp, eqDiameter = Dh \<rparr>)"

section \<open>Application state\<close>

datatype Mode = PressureDrop | FixedDim | MaxFlow | Magic

datatype flow_unit = Ls | M3s | M3h

record locks =
  l_flow :: bool
  l_width :: bool
  l_height :: bool
  l_velocity :: bool
  l_dp :: bool

text \<open>The result object of each mode, with the source's field order.\<close>

datatype result =
    PressureDropResult (width_mm: num) (height_mm: num) (flow_m3s: num) (eqDiameter_m: num)
      (averageVelocity: num) (effectiveVelocity: num) (r_dp_per_m: num) (r_velocityPressure: num)
  | FixedDimResult (width_mm: num) (height_mm: num) (flow_m3s: num) (r_dp_per_m: num)
  | MaxFlowVelocityResult (width_mm: num) (height_mm: num) (maxFlow_m3s: num) (r_velocity: num)
      (r_dp_per_m: num)
  | MaxFlowDpResult (width_mm: num) (height_mm: num) (maxFlow_opt: "num option") (r_velocity: num)
      (dp_target: num)
  | MagicResult (width_mm: num) (height_mm: num) (flow_m3s: num) (r_velocity: num)
      (r_dp_per_m: num)

text \<open>
  The component state that the solvers read through their closure and write through the
  setters.  \<open>temperature\<close> and \<open>rh\<close> hold the numeric value of the field
  (the source keeps a number or the typed text and converts with \<^verbatim>\<open>Number\<close>).
\<close>

record app =
  material :: string
  temperature :: num
  rh :: num
  mode :: Mode
  width :: num
  height :: num
  flowUnit :: flow_unit
  flowInput :: num
  magicLocks :: locks
  results :: "result option"
  stale :: bool
  warnings :: "string list"

definition flowInputToM3s :: "num \<Rightarrow> flow_unit \<Rightarrow> num" where
  "flowInputToM3s val unit =
     (let v = safeNum val (Fin 0)
      in case unit of Ls \<Rightarrow> lsToM3s v | M3h \<Rightarrow> m3hToM3s v | M3s \<Rightarrow> v)"

section \<open>Bisection solvers\<close>

text \<open>The relative-tolerance test shared by both bisections.\<close>

definition within_tol :: "num \<Rightarrow> num \<Rightarrow> bool" where
  "within_tol dp target =
     nlt (ndiv (nabs (nsub dp target)) (nmax target (Fin 0.000001))) (Fin 0.0001)"

text \<open>
  The loop of \<^verbatim>\<open>solveMissingDimension\<close>: the first argument after the inputs counts the
  iterations that remain of the 60; \<open>best\<close> is \<^verbatim>\<open>{ mid, dp }\<close> or \<^verbatim>\<open>null\<close>.
\<close>

fun smd_loop ::
  "app \<Rightarrow> bool \<Rightarrow> num \<Rightarrow> num \<Rightarrow> num \<Rightarrow> nat \<Rightarrow> num \<Rightarrow> num \<Rightarrow> (num \<times> num) option
   \<Rightarrow> (num \<times> num) option" where
  "smd_loop a fixedIsWidth fixed_m Q_m3s target 0 lo hi best = best"
| "smd_loop a fixedIsWidth fixed_m Q_m3s target (Suc n) lo hi best =
     (let mid = nmul (Fin 0.5) (nadd lo hi);
          w = (if fixedIsWidth then fixed_m else mid);
          h = (if fixedIsWidth then mid else fixed_m);
          c = calcRectNums (mToMm w) (mToMm h) Q_m3s
                (safeNum (temperature a) (Fin 20)) (safeNum (rh a) (Fin 50)) (material a);
          dp = dp_per_m c
      in if \<not> isFinite dp then best
         else let lo' = (if ngt dp target then mid else lo);
                  hi' = (if ngt dp target then hi else mid);
                  best' = Some (mid, dp)
              in if within_tol dp target then best'
                 else smd_loop a fixedIsWidth fixed_m Q_m3s target n lo' hi' best')"

record dim_solution =
  displayValueMm :: num
  sol_dp :: num

definition solveMissingDimension ::
  "app \<Rightarrow> bool \<Rightarrow> num \<Rightarrow> num \<Rightarrow> num \<Rightarrow> dim_solution option" where
  "solveMissingDimension a fixedIsWidth fixedValueDisplay Q_m3s targetDpPaPerM =
     (let fixed_m = mmToM (safeNum fixedValueDisplay (Fin 0));
          target = safeNum targetDpPaPerM (Fin 0)
      in if nle fixed_m (Fin 0) \<or> nle Q_m3s (Fin 0) \<or> nle target (Fin 0) then None
         else case smd_loop a fixedIsWidth fixed_m Q_m3s target 60 (Fin 0.0001) (Fin 5.0) None of
                None \<Rightarrow> None
              | Some (mid, dp) \<Rightarrow> Some \<lparr> displayValueMm = mToMm mid, sol_dp = dp \<rparr>)"

text \<open>The loop of \<^verbatim>\<open>solveMaxFlow\<close>, 80 iterations at most, carrying \<^verbatim>\<open>bestQ\<close>.\<close>

fun smf_loop :: "app \<Rightarrow> num \<Rightarrow> num \<Rightarrow> num \<Rightarrow> nat \<Rightarrow> num \<Rightarrow> num \<Rightarrow> num \<Rightarrow> num" where
  "smf_loop a w h target 0 lo hi bestQ = bestQ"
| "smf_loop a w h target (Suc n) lo hi bestQ =
     (let mid = nmul (Fin 0.5) (nadd lo hi);
          c = calcRectNums (mToMm w) (mToMm h) mid
                (safeNum (temperature a) (Fin 20)) (safeNum (rh a) (Fin 50)) (material a);
          dp = dp_per_m c
      in if \<not> isFinite dp then bestQ
         else let hi' = (if ngt dp target then mid else hi);
                  lo' = (if ngt dp target then lo else mid);
                  bestQ' = (if ngt dp target then bestQ else mid)
              in if within_tol dp target then bestQ'
                 else smf_loop a w h target n lo' hi' bestQ')"

text \<open>\<^verbatim>\<open>solveMaxFlow\<close> returns \<^verbatim>\<open>null\<close> (here \<open>None\<close>) or the number \<^verbatim>\<open>bestQ\<close>.\<close>

definition solveMaxFlow :: "app \<Rightarrow> num \<Rightarrow> num \<Rightarrow> num \<Rightarrow> num option" where
  "solveMaxFlow a w_mm h_mm targetDpPaPerM =
     (let w = mmToM (safeNum w_mm (Fin 0));
          h = mmToM (safeNum h_mm (Fin 0));
          target = safeNum targetDpPaPerM (Fin 0)
      in if nle w (Fin 0) \<or> nle h (Fin 0) \<or> nle target (Fin 0) then None
         else Some (smf_loop a w h target 80 (Fin 0.000001) (Fin 10) (Fin 0)))"

section \<open>The magic solver\<close>

record targets =
  t_flow :: num
  t_width :: num
  t_height :: num
  t_velocity :: num
  t_dp :: num

record mstate =
  s_flow :: num
  s_width :: num
  s_height :: num

text \<open>What the closures of the magic branch capture.\<close>

record magic_ctx =
  locked :: locks
  tgt :: targets
  ctx_Tn :: num
  ctx_RHn :: num
  ctx_mat :: string

record residual =
  res :: "(string \<times> num) list"
  rms :: num
  res_calc :: calc

definition rel_residual :: "num \<Rightarrow> num \<Rightarrow> num" where
  "rel_residual x target = ndiv (nsub x target) (nmax target (Fin 0.000001))"

definition residuals :: "magic_ctx \<Rightarrow> mstate \<Rightarrow> residual" where
  "residuals ctx s =
     (let c = calcRectNums (s_width s) (s_height s) (s_flow s) (ctx_Tn ctx) (ctx_RHn ctx) (ctx_mat ctx);
          l = locked ctx;
          t = tgt ctx;
          r = (if l_flow l then [(''flow'', rel_residual (s_flow s) (t_flow t))] else [])
            @ (if l_width l then [(''width'', rel_residual (s_width s) (t_width t))] else [])
            @ (if l_height l then [(''height'', rel_residual (s_height s) (t_height t))] else [])
            @ (if l_velocity l then [(''velocity'', rel_residual (cV c) (t_velocity t))] else [])
            @ (if l_dp l then [(''dp'', rel_residual (dp_per_m c) (t_dp t))] else []);
          m = (if r \<noteq> []
               then nsqrt (ndiv (foldl nadd (Fin 0) (map (\<lambda>(k, v). nmul v v) r))
                                (Fin (real (length r))))
               else Fin 0)
      in \<lparr> res = r, rms = m, res_calc = c \<rparr>)"

datatype varName = VFlow | VWidth | VHeight

fun stepFactors :: "varName \<Rightarrow> num" where
  "stepFactors VFlow = Fin 1.1"
| "stepFactors VWidth = Fin 1.05"
| "stepFactors VHeight = Fin 1.05"

fun get_var :: "mstate \<Rightarrow> varName \<Rightarrow> num" where
  "get_var s VFlow = s_flow s"
| "get_var s VWidth = s_width s"
| "get_var s VHeight = s_height s"

fun set_var :: "mstate \<Rightarrow> varName \<Rightarrow> num \<Rightarrow> mstate" where
  "set_var s VFlow x = s\<lparr> s_flow := x \<rparr>"
| "set_var s VWidth x = s\<lparr> s_width := x \<rparr>"
| "set_var s VHeight x = s\<lparr> s_height := x \<rparr>"

fun var_locked :: "locks \<Rightarrow> varName \<Rightarrow> bool" where
  "var_locked l VFlow = l_flow l"
| "var_locked l VWidth = l_width l"
| "var_locked l VHeight = l_height l"

text \<open>The trial state of one direction: the perturbed variable, then the three floors.\<close>

definition trial_state :: "mstate \<Rightarrow> varName \<Rightarrow> num \<Rightarrow> mstate" where
  "trial_state base v dir =
     (let trial = set_var base v (nmul (get_var base v) dir)
      in \<lparr> s_flow = nmax (s_flow trial) (Fin 0.000001),
           s_width = nmax (s_width trial) (Fin 10),
           s_height = nmax (s_height trial) (Fin 10) \<rparr>)"

text \<open>One pass of the loop over \<^verbatim>\<open>dir\<close>; \<open>bestLocal\<close> is \<^verbatim>\<open>{ val, rms }\<close>.\<close>

definition try_dir :: "magic_ctx \<Rightarrow> mstate \<Rightarrow> varName \<Rightarrow> num \<times> num \<Rightarrow> num \<Rightarrow> num \<times> num" where
  "try_dir ctx base v bestLocal dir =
     (let trial = trial_state base v dir;
          r = rms (residuals ctx trial)
      in if nlt r (snd bestLocal) then (get_var trial v, r) else bestLocal)"

definition dirs :: "varName \<Rightarrow> num list" where
  "dirs v = [ndiv (Fin 1) (stepFactors v), stepFactors v]"

definition descend_var :: "magic_ctx \<Rightarrow> mstate \<Rightarrow> varName \<Rightarrow> mstate" where
  "descend_var ctx st v =
     (if var_locked (locked ctx) v then st
      else let bestLocal = foldl (try_dir ctx st v) (get_var st v, PInf) (dirs v)
           in set_var st v (fst bestLocal))"

definition magic_round :: "magic_ctx \<Rightarrow> mstate \<Rightarrow> mstate" where
  "magic_round ctx st = foldl (descend_var ctx) st [VFlow, VWidth, VHeight]"

record best =
  b_state :: mstate
  b_rms :: num
  b_calc :: calc

fun magic_loop :: "magic_ctx \<Rightarrow> nat \<Rightarrow> mstate \<Rightarrow> best option \<Rightarrow> best option" where
  "magic_loop ctx 0 st bst = bst"
| "magic_loop ctx (Suc n) st bst =
     (let st' = magic_round ctx st;
          cur = residuals ctx st';
          new = \<lparr> b_state = st', b_rms = rms cur, b_calc = res_calc cur \<rparr>;
          bst' = (case bst of None \<Rightarrow> new
                  | Some b \<Rightarrow> if nlt (rms cur) (b_rms b) then new else b)
      in if nlt (b_rms bst') (Fin 0.0001) then Some bst'
         else magic_loop ctx n st' (Some bst'))"

section \<open>The mode dispatcher\<close>

text \<open>The dash of the warning texts (U+2014), as its three UTF-8 bytes.\<close>

definition emdash :: string where
  "emdash = [CHR 0xE2, CHR 0x80, CHR 0x94]"

definition warn_velocity_high :: string where
  "warn_velocity_high = ''Velocity high (>15 m/s) '' @ emdash @ '' check suitability''"

definition warn_either :: string where
  "warn_either = ''Enter either Velocity OR Pressure Drop in Max Flow mode, not both.''"

definition warn_too_many :: string where
  "warn_too_many = ''Too many locked fields '' @ emdash @ '' unlock one to allow solving.''"

definition warn_not_enough :: "string \<Rightarrow> string" where
  "warn_not_enough suggestion = ''Not enough constraints '' @ emdash @ '' '' @ suggestion @ ''.''"

definition warn_failed :: string where
  "warn_failed =
     ''Magic solver failed to converge '' @ emdash @ '' try different locks or starting values.''"

text \<open>\<^verbatim>\<open>Math.max(...xs)\<close>: the maximum of no numbers is \<^verbatim>\<open>-Infinity\<close>.\<close>

definition Math_max :: "num list \<Rightarrow> num" where
  "Math_max xs = foldl nmax NInf xs"

text \<open>
  Solve-one-dimension mode: the candidate from the velocity (\<^verbatim>\<open>hFromV\<close>, \<^verbatim>\<open>wFromV\<close>), the
  candidate from the pressure drop (\<^verbatim>\<open>hFromDp\<close>, \<^verbatim>\<open>wFromDp\<close>), and \<^verbatim>\<open>pick\<close>.
\<close>

definition dimFromV :: "num \<Rightarrow> num \<Rightarrow> num \<Rightarrow> num option" where
  "dimFromV needV Qv fixed_mm =
     (if ngt needV (Fin 0) \<and> ngt Qv (Fin 0)
      then let Aneed = ndiv Qv needV in Some (mToMm (ndiv Aneed (mmToM fixed_mm)))
      else None)"

definition dimFromDp :: "app \<Rightarrow> bool \<Rightarrow> num \<Rightarrow> num \<Rightarrow> num \<Rightarrow> num option" where
  "dimFromDp a fixedIsWidth fixed_mm needDp Qv =
     (if ngt needDp (Fin 0) \<and> ngt Qv (Fin 0)
      then (case solveMissingDimension a fixedIsWidth fixed_mm Qv needDp of
              Some sol \<Rightarrow> Some (displayValueMm sol)
            | None \<Rightarrow> None)
      else None)"

definition pick :: "num option \<Rightarrow> num option \<Rightarrow> num option" where
  "pick fromV fromDp =
     (let candidates = List.map_filter (\<lambda>x. x) [fromV, fromDp]
      in if candidates \<noteq> [] then Some (Math_max (map (\<lambda>x. safeNum x (Fin 0)) candidates))
         else None)"

definition apply_pick :: "num \<Rightarrow> num option \<Rightarrow> num" where
  "apply_pick old p = (case p of Some x \<Rightarrow> if truthy x then x else old | None \<Rightarrow> old)"

text \<open>The pair \<^verbatim>\<open>(solvedW, solvedH)\<close> after the two branches of the mode.\<close>

definition solved_dims :: "app \<Rightarrow> num \<Rightarrow> num \<Rightarrow> num \<Rightarrow> num \<Rightarrow> num \<Rightarrow> num \<times> num" where
  "solved_dims a w_mm h_mm needV needDp Qv =
     (if ngt w_mm (Fin 0) \<and> (\<not> truthy h_mm \<or> nle h_mm (Fin 0))
      then (w_mm, apply_pick h_mm (pick (dimFromV needV Qv w_mm) (dimFromDp a True w_mm needDp Qv)))
      else if ngt h_mm (Fin 0) \<and> (\<not> truthy w_mm \<or> nle w_mm (Fin 0))
      then (apply_pick w_mm (pick (dimFromV needV Qv h_mm) (dimFromDp a False h_mm needDp Qv)), h_mm)
      else (w_mm, h_mm))"

definition lockedCount :: "locks \<Rightarrow> nat" where
  "lockedCount l =
     length (filter (\<lambda>b. b) [l_flow l, l_width l, l_height l, l_velocity l, l_dp l])"

definition suggestion :: "locks \<Rightarrow> string" where
  "suggestion l =
     (if \<not> l_width l then ''Enter duct width''
      else if \<not> l_height l then ''Enter duct height''
      else if \<not> l_flow l \<and> \<not> l_velocity l then ''Enter flow rate or velocity''
      else ''Provide additional locked input'')"

definition magic_targets :: "app \<Rightarrow> num \<Rightarrow> num \<Rightarrow> num \<Rightarrow> num \<Rightarrow> targets" where
  "magic_targets a w_mm h_mm velocityVal targetDpVal =
     \<lparr> t_flow = flowInputToM3s (flowInput a) (flowUnit a),
       t_width = safeNum w_mm (Fin 0),
       t_height = safeNum h_mm (Fin 0),
       t_velocity = safeNum velocityVal (Fin 0),
       t_dp = safeNum targetDpVal (Fin 0) \<rparr>"

definition initial_state :: "targets \<Rightarrow> mstate" where
  "initial_state t =
     \<lparr> s_flow = (if truthy (t_flow t) then t_flow t else Fin 0.1),
       s_width = (if truthy (t_width t) then t_width t else Fin 200),
       s_height = (if truthy (t_height t) then t_height t else Fin 200) \<rparr>"

definition magic_context :: "app \<Rightarrow> num \<Rightarrow> num \<Rightarrow> num \<Rightarrow> num \<Rightarrow> magic_ctx" where
  "magic_context a w_mm h_mm velocityVal targetDpVal =
     \<lparr> locked = magicLocks a,
       tgt = magic_targets a w_mm h_mm velocityVal targetDpVal,
       ctx_Tn = safeNum (temperature a) (Fin 20),
       ctx_RHn = safeNum (rh a) (Fin 50),
       ctx_mat = material a \<rparr>"

text \<open>The search of the magic branch: the value of \<^verbatim>\<open>best\<close> after the 200 rounds.\<close>

definition magic_search :: "app \<Rightarrow> num \<Rightarrow> num \<Rightarrow> num \<Rightarrow> num \<Rightarrow> best option" where
  "magic_search a w_mm h_mm velocityVal targetDpVal =
     (let ctx = magic_context a w_mm h_mm velocityVal targetDpVal
      in magic_loop ctx 200 (initial_state (tgt ctx)) None)"

definition runSolverWithValues :: "app \<Rightarrow> num \<Rightarrow> num \<Rightarrow> num \<Rightarrow> num \<Rightarrow> num \<Rightarrow> app" where
  "runSolverWithValues a w_mm h_mm flowInputVal velocityVal targetDpVal =
     (let Tn = safeNum (temperature a) (Fin 20);
          RHn = safeNum (rh a) (Fin 50);
          Q = flowInputToM3s flowInputVal (flowUnit a)
      in case mode a of
        PressureDrop \<Rightarrow>
          (let c = calcRectNums w_mm h_mm Q Tn RHn (material a);
               a1 = a\<lparr> results := Some (PressureDropResult w_mm h_mm Q (eqDiameter c) (cV c) (cV c)
                                         (dp_per_m c) (velocityPressure c)),
                       stale := False \<rparr>
           in if ngt (cV c) (Fin 15) then a1\<lparr> warnings := warnings a1 @ [warn_velocity_high] \<rparr>
              else a1)
      | FixedDim \<Rightarrow>
          (let needDp = safeNum targetDpVal (Fin 0);
               needV = safeNum velocityVal (Fin 0);
               Qv = (if ngt Q (Fin 0) then Q
                     else if ngt needV (Fin 0) then nmul needV (rectArea_m2_from_mm w_mm h_mm)
                     else Fin 0);
               (solvedW, solvedH) = solved_dims a w_mm h_mm needV needDp Qv;
               c = calcRectNums solvedW solvedH Qv Tn RHn (material a)
           in a\<lparr> results := Some (FixedDimResult solvedW solvedH Qv (dp_per_m c)),
                 stale := False \<rparr>)
      | MaxFlow \<Rightarrow>
          (let needDp = safeNum targetDpVal (Fin 0);
               needV = safeNum velocityVal (Fin 0)
           in if ngt needV (Fin 0) \<and> ngt needDp (Fin 0) then a\<lparr> warnings := [warn_either] \<rparr>
              else if ngt needV (Fin 0) then
                (let A = rectArea_m2_from_mm w_mm h_mm;
                     Qcalc = nmul needV A;
                     c = calcRectNums w_mm h_mm Qcalc Tn RHn (material a)
                 in a\<lparr> results := Some (MaxFlowVelocityResult w_mm h_mm Qcalc needV (dp_per_m c)),
                       stale := False \<rparr>)
              else if ngt needDp (Fin 0) then
                (let maxQ = solveMaxFlow a w_mm h_mm needDp;
                     q = (case maxQ of Some x \<Rightarrow> if truthy x then x else Fin 0 | None \<Rightarrow> Fin 0);
                     c = calcRectNums w_mm h_mm q Tn RHn (material a)
                 in a\<lparr> results := Some (MaxFlowDpResult w_mm h_mm maxQ (cV c) needDp),
                       stale := False \<rparr>)
              else a)
      | Magic \<Rightarrow>
          (if 4 \<le> lockedCount (magicLocks a) then a\<lparr> warnings := [warn_too_many] \<rparr>
           else if lockedCount (magicLocks a) < 2
           then a\<lparr> warnings := [warn_not_enough (suggestion (magicLocks a))] \<rparr>
           else case magic_search a w_mm h_mm velocityVal targetDpVal of
                  Some b \<Rightarrow>
                    (let st = b_state b;
                         c = calcRectNums (s_width st) (s_height st) (s_flow st) Tn RHn (material a)
                     in a\<lparr> width := s_width st, height := s_height st, flowInput := s_flow st,
                           results := Some (MagicResult (s_width st) (s_height st) (s_flow st)
                                             (cV c) (dp_per_m c)),
                           stale := False \<rparr>)
                | None \<Rightarrow> a\<lparr> warnings := [warn_failed] \<rparr>))"

section \<open>Notions used in the statements\<close>

text \<open>A finite value of the model is a double when it lies below the overflow threshold.\<close>

definition is_double :: "num \<Rightarrow> bool" where
  "is_double x = (case x of Fin r \<Rightarrow> \<bar>r\<bar> < ovf | _ \<Rightarrow> True)"

text \<open>The pressure drop that a solver of component \<open>a\<close> evaluates at a geometry and a flow.\<close>

definition smf_dp :: "app \<Rightarrow> num \<Rightarrow> num \<Rightarrow> num \<Rightarrow> num" where
  "smf_dp a w_mm h_mm q =
     dp_per_m (calcRectNums w_mm h_mm q (safeNum (temperature a) (Fin 20))
                 (safeNum (rh a) (Fin 50)) (material a))"

text \<open>A flow is feasible for a target when its evaluation is finite and does not exceed it.\<close>

definition feasible :: "app \<Rightarrow> num \<Rightarrow> num \<Rightarrow> num \<Rightarrow> num \<Rightarrow> bool" where
  "feasible a w h target q = (isFinite (smf_dp a w h q) \<and> \<not> ngt (smf_dp a w h q) target)"

section \<open>Example inputs\<close>

definition no_locks :: locks where
  "no_locks = \<lparr> l_flow = False, l_width = False, l_height = False,
                 l_velocity = False, l_dp = False \<rparr>"

text \<open>The component as it starts: 200 mm by 200 mm, 100 L/s, 20 degrees, 50 percent.\<close>

definition office :: app where
  "office = \<lparr> material = ''Galvanised steel'', temperature = Fin 20, rh = Fin 50,
              mode = PressureDrop, width = Fin 200, height = Fin 200, flowUnit = Ls,
              flowInput = Fin 100, magicLocks = no_locks,
              results = None, stale = False, warnings = [] \<rparr>"

definition magic_unlocked :: app where
  "magic_unlocked = office\<lparr> mode := Magic \<rparr>"

definition magic_all_locked :: app where
  "magic_all_locked =
     office\<lparr> mode := Magic,
             magicLocks := \<lparr> l_flow = True, l_width = True, l_height = True,
                             l_velocity = True, l_dp = True \<rparr> \<rparr>"

text \<open>Magic mode with flow, width and height locked and the flow field at 0.\<close>

definition magic_fwh_zero_flow :: app where
  "magic_fwh_zero_flow =
     office\<lparr> mode := Magic, flowInput := Fin 0,
             magicLocks := no_locks\<lparr> l_flow := True, l_width := True, l_height := True \<rparr> \<rparr>"

text \<open>A magic context with flow and width locked at 0.1 and 200, and a state that meets both.\<close>

definition ctx_fw :: magic_ctx where
  "ctx_fw = \<lparr> locked = no_locks\<lparr> l_flow := True, l_width := True \<rparr>,
              tgt = \<lparr> t_flow = Fin 0.1, t_width = Fin 200, t_height = Fin 200,
                      t_velocity = Fin 0, t_dp = Fin 1 \<rparr>,
              ctx_Tn = Fin 20, ctx_RHn = Fin 50, ctx_mat = ''Galvanised steel'' \<rparr>"

definition st_200 :: mstate where
  "st_200 = \<lparr> s_flow = Fin 0.1, s_width = Fin 200, s_height = Fin 200 \<rparr>"

definition fixed_dim_office :: app where
  "fixed_dim_office = office\<lparr> mode := FixedDim \<rparr>"

text \<open>Max-flow mode with the temperature field at absolute zero, and at 0 degrees.\<close>

definition absolute_zero :: app where
  "absolute_zero = office\<lparr> mode := MaxFlow, temperature := Fin (- 273.15) \<rparr>"

definition freezing :: app where
  "freezing = office\<lparr> mode := MaxFlow, temperature := Fin 0 \<rparr>"

text \<open>The flow \<^verbatim>\<open>Qv\<close> of the solve-one-dimension mode.\<close>

definition fd_Qv :: "app \<Rightarrow> num \<Rightarrow> num \<Rightarrow> num \<Rightarrow> num \<Rightarrow> num" where
  "fd_Qv a w_mm h_mm flowInputVal velocityVal =
     (let Q = flowInputToM3s flowInputVal (flowUnit a);
          needV = safeNum velocityVal (Fin 0)
      in if ngt Q (Fin 0) then Q
         else if ngt needV (Fin 0) then nmul needV (rectArea_m2_from_mm w_mm h_mm)
         else Fin 0)"

text \<open>
  Solve-one-dimension mode at 0 degrees with the flow in cubic metres per second; used with
  a width of 10 km, where the flow of 100 cubic metres per second stays laminar.
\<close>

definition wide_duct :: app where
  "wide_duct = office\<lparr> mode := FixedDim, temperature := Fin 0, flowUnit := M3s \<rparr>"

section \<open>The evaluation over the reals\<close>

text \<open>
  The pressure drop of \<^verbatim>\<open>calcRectNums\<close> as a function of real density, viscosity, roughness,
  width and height in mm and flow, with its laminar and turbulent branches, and the interval
  predicate \<open>mag\<close> used to bound intermediate values.
\<close>

definition chi :: "real \<Rightarrow> real \<Rightarrow> real \<Rightarrow> real" where
  "chi r s u = u * (- ln (r + s * u))"

definition dpR :: "real \<Rightarrow> real \<Rightarrow> real \<Rightarrow> real \<Rightarrow> real \<Rightarrow> real \<Rightarrow> real" where
  "dpR \<rho> \<mu> \<epsilon> w h q =
     (let A = (w / 1000) * (h / 1000);
          P = 2 * (w / 1000 + h / 1000);
          Dh = 4 * A / P;
          V = q / A;
          Rn = \<rho> * \<bar>V\<bar> * Dh / \<mu>;
          rr = \<epsilon> / max Dh (1 / 1000000000);
          f = (if Rn < 2300 then 64 / Rn
               else 1 / (- 1.8 * log 10 ((rr / 3.7) powr 1.11 + 6.9 / Rn)) ^ 2)
      in f * (\<rho> * V * V) / (2 * Dh))"

definition ReR :: "real \<Rightarrow> real \<Rightarrow> real \<Rightarrow> real \<Rightarrow> real \<Rightarrow> real" where
  "ReR \<rho> \<mu> q a x = 2 * \<rho> * q / ((a + x) * \<mu>)"

definition lamR :: "real \<Rightarrow> real \<Rightarrow> real \<Rightarrow> real \<Rightarrow> real" where
  "lamR \<mu> q a x = 8 * \<mu> * q * (a + x) ^ 2 / (a ^ 3 * x ^ 3)"

definition AhaR :: "real \<Rightarrow> real \<Rightarrow> real \<Rightarrow> real \<Rightarrow> real" where
  "AhaR \<epsilon> s a x = (\<epsilon> * (a + x) / (7.4 * a * x)) powr 1.11 + s * (a + x)"

definition turbR :: "real \<Rightarrow> real \<Rightarrow> real \<Rightarrow> real \<Rightarrow> real \<Rightarrow> real \<Rightarrow> real" where
  "turbR \<rho> q \<epsilon> s a x =
     \<rho> * q ^ 2 * (a + x) / (4 * a ^ 3 * x ^ 3) / (1.8 * log 10 (AhaR \<epsilon> s a x)) ^ 2"

text \<open>The roughness term of the Haaland argument.\<close>

definition roughR :: "real \<Rightarrow> real \<Rightarrow> real \<Rightarrow> real" where
  "roughR \<epsilon> a x = (\<epsilon> * (a + x) / (7.4 * a * x)) powr 1.11"

text \<open>\<open>psi\<close> is the positive quantity whose square divides the turbulent pressure drop.\<close>

definition psi :: "real \<Rightarrow> real \<Rightarrow> real \<Rightarrow> real \<Rightarrow> real" where
  "psi \<epsilon> s a x = (a + x) * (- ln (AhaR \<epsilon> s a x))"

definition mag :: "nat \<Rightarrow> nat \<Rightarrow> real \<Rightarrow> bool" where
  "mag m n x \<longleftrightarrow> 1 / 10 ^ m \<le> x \<and> x \<le> 10 ^ n"

text \<open>
  The real pressure drop of a galvanised duct 300 mm wide at 0.2 m3/s, as a function of the
  density, the viscosity and the height in metres.
\<close>

definition duct300 :: "real \<Rightarrow> real \<Rightarrow> real \<Rightarrow> real" where
  "duct300 \<rho> \<mu> x = dpR \<rho> \<mu> (15 / 100000) 300 (x * 1000) (2 / 10)"

section \<open>Notions of the solvers used in the statements\<close>

text \<open>
  The midpoints that the bisection of \<^verbatim>\<open>solveMaxFlow\<close> evaluates with a finite pressure drop,
  in order, each with its pressure drop.  The list ends after the given number of
  iterations, with the first evaluation within the tolerance, or before the first
  evaluation that is not finite.
\<close>

fun smf_visits :: "app \<Rightarrow> num \<Rightarrow> num \<Rightarrow> num \<Rightarrow> nat \<Rightarrow> num \<Rightarrow> num \<Rightarrow> (num \<times> num) list" where
  "smf_visits a w h target 0 lo hi = []"
| "smf_visits a w h target (Suc n) lo hi =
     (let mid = nmul (Fin 0.5) (nadd lo hi);
          dp = smf_dp a (mToMm w) (mToMm h) mid
      in if \<not> isFinite dp then []
         else (mid, dp) # (if within_tol dp target then []
                           else if ngt dp target then smf_visits a w h target n lo mid
                           else smf_visits a w h target n mid hi))"

text \<open>The last of the evaluated midpoints whose pressure drop does not exceed the target.\<close>

definition last_feasible :: "num \<Rightarrow> (num \<times> num) list \<Rightarrow> num \<Rightarrow> num" where
  "last_feasible target visits none =
     (case filter (\<lambda>(m, d). \<not> ngt d target) visits of
        [] \<Rightarrow> none
      | f # fs \<Rightarrow> fst (last (f # fs)))"

text \<open>The states after each of the first rounds of the magic search, in order.\<close>

fun magic_rounds :: "magic_ctx \<Rightarrow> nat \<Rightarrow> mstate \<Rightarrow> mstate list" where
  "magic_rounds ctx 0 st = []"
| "magic_rounds ctx (Suc n) st = magic_round ctx st # magic_rounds ctx n (magic_round ctx st)"

text \<open>A state with its RMS residual and its evaluation, as \<^verbatim>\<open>best\<close> records it.\<close>

definition best_of :: "magic_ctx \<Rightarrow> mstate \<Rightarrow> best" where
  "best_of ctx s = \<lparr> b_state = s, b_rms = rms (residuals ctx s),
                     b_calc = res_calc (residuals ctx s) \<rparr>"

text \<open>
  The rule of one round in the words of claim C2 as amended.  \<open>floored\<close> applies the three
  floors; \<open>rule_for\<close> is the rule for one variable, given by whether it is locked, how it is
  read and written, and its step; \<open>rule_round\<close> applies the rule to the flow with step 1.1,
  then to the width and to the height with step 1.05.
\<close>

definition floored :: "mstate \<Rightarrow> mstate" where
  "floored s = \<lparr> s_flow = nmax (s_flow s) (Fin 0.000001),
                 s_width = nmax (s_width s) (Fin 10),
                 s_height = nmax (s_height s) (Fin 10) \<rparr>"

definition rule_for ::
  "magic_ctx \<Rightarrow> bool \<Rightarrow> (mstate \<Rightarrow> num) \<Rightarrow> (mstate \<Rightarrow> num \<Rightarrow> mstate) \<Rightarrow> num \<Rightarrow> mstate \<Rightarrow> mstate" where
  "rule_for ctx is_locked rd wr step st =
     (if is_locked then st
      else let down = floored (wr st (nmul (rd st) (ndiv (Fin 1) step)));
               up = floored (wr st (nmul (rd st) step));
               rms_down = rms (residuals ctx down);
               rms_up = rms (residuals ctx up)
           in if nlt rms_down PInf
              then (if nlt rms_up rms_down then wr st (rd up) else wr st (rd down))
              else if nlt rms_up PInf then wr st (rd up)
              else st)"

definition rule_round :: "magic_ctx \<Rightarrow> mstate \<Rightarrow> mstate" where
  "rule_round ctx st =
     (let s1 = rule_for ctx (l_flow (locked ctx)) s_flow (\<lambda>s x. s\<lparr> s_flow := x \<rparr>) (Fin 1.1) st;
          s2 = rule_for ctx (l_width (locked ctx)) s_width (\<lambda>s x. s\<lparr> s_width := x \<rparr>) (Fin 1.05) s1
      in rule_for ctx (l_height (locked ctx)) s_height (\<lambda>s x. s\<lparr> s_height := x \<rparr>) (Fin 1.05) s2)"

section \<open>Basic facts about the numbers\<close>

lemma ovf_gt: "10 ^ 300 < ovf"
  unfolding ovf_def by simp

lemma ovf_pos: "0 < ovf"
proof -
  have "(0::real) < 10 ^ 300" by simp
  then show ?thesis using ovf_gt by linarith
qed

lemma rnd_Fin: "\<bar>r\<bar> < ovf \<Longrightarrow> rnd r = Fin r"
  by (auto simp: rnd_def)

lemma rnd_small: "\<bar>r\<bar> \<le> 1000000000000000000000000000000 \<Longrightarrow> rnd r = Fin r"
proof -
  assume a: "\<bar>r\<bar> \<le> 1000000000000000000000000000000"
  have "(10::real) ^ 30 \<le> 10 ^ 300" by (rule power_increasing) simp_all
  then have "\<bar>r\<bar> < ovf" using a ovf_gt by simp
  then show ?thesis by (rule rnd_Fin)
qed

lemma rnd_0: "rnd 0 = Fin 0"
  using ovf_pos by (simp add: rnd_def)

lemma nmul_NaN_right: "nmul x NaN = NaN"
  by (cases x) auto

lemma ndiv_NaN_right: "ndiv x NaN = NaN"
  by (cases x) auto

lemma nmul_zero_right: "nmul x (Fin 0) = Fin 0 \<or> nmul x (Fin 0) = NaN"
  by (cases x) (auto simp: rnd_0)

lemma nmul_zero_left: "nmul (Fin 0) x = Fin 0 \<or> nmul (Fin 0) x = NaN"
  by (cases x) (auto simp: rnd_0)

lemma ndiv_zero_not_finite: "\<not> isFinite (ndiv x (Fin 0))"
  by (cases x) (auto simp: inf_of_sign_def)


lemma mmToM_safe_nle:
  "nle (mmToM (safeNum w (Fin 0))) (Fin 0) \<longleftrightarrow> \<not> (isFinite w \<and> ngt w (Fin 0))"
  using ovf_pos by (cases w) (auto simp: mmToM_def safeNum_def rnd_def ngt_def)

lemma safe_nle:
  "nle (safeNum t (Fin 0)) (Fin 0) \<longleftrightarrow> \<not> (isFinite t \<and> ngt t (Fin 0))"
  by (cases t) (auto simp: safeNum_def ngt_def)

lemma mToMm_mmToM: "isFinite w \<Longrightarrow> is_double w \<Longrightarrow> mToMm (mmToM w) = w"
  using ovf_pos by (cases w) (auto simp: mToMm_def mmToM_def rnd_def is_double_def)

lemma mid_val:
  "\<bar>l\<bar> \<le> 10 \<Longrightarrow> \<bar>u\<bar> \<le> 10 \<Longrightarrow> nmul (Fin 0.5) (nadd (Fin l) (Fin u)) = Fin ((l + u) / 2)"
  by (simp add: rnd_small)

lemmas calc_defs = calcRectNums_def moistAirDensity_def saturationVaporPressurePa_def
  dynamicViscosityAir_def rectArea_m2_from_mm_def rectPerimeter_m_from_mm_def
  haalandFrictionFactor_def ROUGHNESS_def nsub_def nmax_def ngt_def Let_def

section \<open>Degenerate evaluations\<close>

lemma haaland_not_finite: "\<not> isFinite r \<Longrightarrow> haalandFrictionFactor r e = NaN"
  by (simp add: haalandFrictionFactor_def)


lemma dp_zero_viscosity:
  assumes "dynamicViscosityAir T = Fin 0"
  shows "\<not> isFinite (dp_per_m (calcRectNums w h q T RH m))"
  using assms ndiv_zero_not_finite
  by (simp add: calcRectNums_def Let_def haaland_not_finite)

lemma mu_absolute_zero: "dynamicViscosityAir (Fin (- 273.15)) = Fin 0"
  by (simp add: dynamicViscosityAir_def rnd_small Let_def)

lemma dp_absolute_zero: "\<not> isFinite (smf_dp absolute_zero w h q)"
  using mu_absolute_zero
  by (simp add: smf_dp_def absolute_zero_def office_def safeNum_def dp_zero_viscosity)




section \<open>Lock-count policy of the magic mode\<close>

text \<open>
  Claim C7.  In magic mode, with 4 or 5 constraints locked the only effect of a solve is
  the warning that too many fields are locked; with fewer than 2 locked the only effect is
  the warning that names the needed input, width first, then height, then flow or
  velocity, else the generic text.  In both cases no result is produced: every other
  field of the state, the results among them, is left as it was.
\<close>

theorem magic_lock_count_policy:
  assumes "mode a = Magic"
  shows "(lockedCount (magicLocks a) = 4 \<or> lockedCount (magicLocks a) = 5 \<longrightarrow>
            runSolverWithValues a w h fi v d = a\<lparr> warnings := [warn_too_many] \<rparr>)
       \<and> (lockedCount (magicLocks a) < 2 \<longrightarrow>
            runSolverWithValues a w h fi v d =
              a\<lparr> warnings :=
                   [warn_not_enough
                      (if \<not> l_width (magicLocks a) then ''Enter duct width''
                       else if \<not> l_height (magicLocks a) then ''Enter duct height''
                       else if \<not> l_flow (magicLocks a) \<and> \<not> l_velocity (magicLocks a)
                       then ''Enter flow rate or velocity''
                       else ''Provide additional locked input'')] \<rparr>)"
  using assms by (auto simp add: runSolverWithValues_def suggestion_def Let_def)

text \<open>Witness for C7: all five locked, and none locked.\<close>

theorem magic_lock_count_policy_witness:
  "mode magic_all_locked = Magic
   \<and> lockedCount (magicLocks magic_all_locked) = 5
   \<and> runSolverWithValues magic_all_locked (Fin 200) (Fin 200) (Fin 100) (Fin 0) (Fin 1)
       = magic_all_locked\<lparr> warnings := [warn_too_many] \<rparr>
   \<and> results (runSolverWithValues magic_all_locked (Fin 200) (Fin 200) (Fin 100) (Fin 0) (Fin 1))
       = None
   \<and> mode magic_unlocked = Magic
   \<and> lockedCount (magicLocks magic_unlocked) < 2
   \<and> runSolverWithValues magic_unlocked (Fin 200) (Fin 200) (Fin 100) (Fin 0) (Fin 1)
       = magic_unlocked\<lparr> warnings := [warn_not_enough ''Enter duct width''] \<rparr>
   \<and> results (runSolverWithValues magic_unlocked (Fin 200) (Fin 200) (Fin 100) (Fin 0) (Fin 1))
       = None"
proof -
  have a: "mode magic_all_locked = Magic" "lockedCount (magicLocks magic_all_locked) = 5"
    "results magic_all_locked = None"
    by (simp_all add: magic_all_locked_def office_def lockedCount_def)
  have u: "mode magic_unlocked = Magic" "lockedCount (magicLocks magic_unlocked) = 0"
    "\<not> l_width (magicLocks magic_unlocked)" "results magic_unlocked = None"
    by (simp_all add: magic_unlocked_def office_def lockedCount_def no_locks_def)
  show ?thesis
    using magic_lock_count_policy[OF a(1), of "Fin 200" "Fin 200" "Fin 100" "Fin 0" "Fin 1"]
      magic_lock_count_policy[OF u(1), of "Fin 200" "Fin 200" "Fin 100" "Fin 0" "Fin 1"]
    by (simp add: a u)
qed

section \<open>Solve-one-dimension mode with both dimensions given\<close>

text \<open>
  Claim C10.  In solve-one-dimension mode with width and height both strictly positive,
  neither branch that computes candidates is taken: the result reports the input width and
  height, the flow \<open>Qv\<close> (the stated flow if positive, otherwise velocity times area,
  otherwise 0) and the pressure drop of the direct evaluation at these values.
\<close>

theorem fixedDim_both_positive:
  assumes "mode a = FixedDim" and "ngt w (Fin 0)" and "ngt h (Fin 0)"
  shows "runSolverWithValues a w h fi v d =
           (let Q = flowInputToM3s fi (flowUnit a);
                needV = safeNum v (Fin 0);
                Qv = (if ngt Q (Fin 0) then Q
                      else if ngt needV (Fin 0) then nmul needV (rectArea_m2_from_mm w h)
                      else Fin 0)
            in a\<lparr> results := Some (FixedDimResult w h Qv
                      (dp_per_m (calcRectNums w h Qv (safeNum (temperature a) (Fin 20))
                                   (safeNum (rh a) (Fin 50)) (material a)))),
                  stale := False \<rparr>)"
proof -
  have nh: "\<not> (\<not> truthy h \<or> nle h (Fin 0))"
    using assms(3) by (cases h) (auto simp: ngt_def)
  have nw: "\<not> (\<not> truthy w \<or> nle w (Fin 0))"
    using assms(2) by (cases w) (auto simp: ngt_def)
  have "solved_dims a w h nv nd q = (w, h)" for nv nd q
    using nh nw by (simp add: solved_dims_def)
  then show ?thesis
    using assms(1) by (simp add: runSolverWithValues_def Let_def)
qed

text \<open>Witness for C10: 200 mm by 200 mm at 100 L/s.\<close>

theorem fixedDim_both_positive_witness:
  "mode fixed_dim_office = FixedDim \<and> ngt (Fin 200) (Fin 0)
   \<and> runSolverWithValues fixed_dim_office (Fin 200) (Fin 200) (Fin 100) (Fin 0) (Fin 1) =
       fixed_dim_office\<lparr> results := Some (FixedDimResult (Fin 200) (Fin 200) (Fin 0.1)
           (dp_per_m (calcRectNums (Fin 200) (Fin 200) (Fin 0.1) (Fin 20) (Fin 50)
                        ''Galvanised steel''))),
         stale := False \<rparr>"
proof -
  have m: "mode fixed_dim_office = FixedDim" and p: "ngt (Fin 200) (Fin 0)"
    by (simp_all add: fixed_dim_office_def office_def ngt_def)
  show ?thesis
    using fixedDim_both_positive[OF m p p, of "Fin 100" "Fin 0" "Fin 1"]
    by (simp add: m p fixed_dim_office_def office_def flowInputToM3s_def safeNum_def lsToM3s_def
        rnd_small ngt_def Let_def)
qed

section \<open>The magic search\<close>

lemma descend_var_locked: "var_locked (locked ctx) v \<Longrightarrow> descend_var ctx st v = st"
  by (simp add: descend_var_def)

lemma magic_round_all_locked:
  "l_flow (locked ctx) \<Longrightarrow> l_width (locked ctx) \<Longrightarrow> l_height (locked ctx)
   \<Longrightarrow> magic_round ctx st = st"
  by (simp add: magic_round_def descend_var_locked)

text \<open>Once \<^verbatim>\<open>best\<close> is set it stays set, and the first round sets it.\<close>

lemma magic_loop_Some_not_None: "magic_loop ctx n st (Some b) \<noteq> None"
  by (induction n arbitrary: st b) (auto simp: Let_def)

lemma magic_loop_Suc_not_None: "magic_loop ctx (Suc n) st bst \<noteq> None"
  using magic_loop_Some_not_None by (simp add: Let_def)

text \<open>A state that no round changes and that is not converged is reported as it is.\<close>

lemma magic_loop_stuck:
  assumes "magic_round ctx st = st"
    and "b = \<lparr> b_state = st, b_rms = rms (residuals ctx st),
               b_calc = res_calc (residuals ctx st) \<rparr>"
    and "\<not> nlt (rms (residuals ctx st)) (Fin 0.0001)"
  shows "magic_loop ctx n st (Some b) = Some b"
proof (induction n)
  case 0
  show ?case by simp
next
  case (Suc n)
  have "\<not> nlt (rms (residuals ctx st)) (rms (residuals ctx st))"
    by (cases "rms (residuals ctx st)") auto
  then show ?case using assms Suc by (simp add: Let_def)
qed

lemma magic_loop_stuck_None:
  assumes "magic_round ctx st = st"
    and "\<not> nlt (rms (residuals ctx st)) (Fin 0.0001)"
  shows "magic_loop ctx (Suc n) st None =
           Some \<lparr> b_state = st, b_rms = rms (residuals ctx st),
                  b_calc = res_calc (residuals ctx st) \<rparr>"
  using assms magic_loop_stuck[OF assms(1) refl assms(2)] by (simp add: Let_def)

lemma zero_flow_rms:
  "rms (residuals (magic_context magic_fwh_zero_flow (Fin 200) (Fin 200) (Fin 0) (Fin 1))
          \<lparr> s_flow = Fin 0.1, s_width = Fin 200, s_height = Fin 200 \<rparr>)
     = Fin (sqrt (10000000000 / 3))"
  by (simp add: residuals_def magic_context_def magic_fwh_zero_flow_def office_def no_locks_def
      magic_targets_def flowInputToM3s_def safeNum_def lsToM3s_def rel_residual_def nsub_def
      nmax_def rnd_small Let_def)

lemma sqrt_big: "\<not> sqrt (10000000000 / 3) < 1 / 10000"
proof -
  have "1 \<le> sqrt (10000000000 / 3)" by simp
  then show ?thesis by linarith
qed

lemma zero_flow_search:
  "magic_search magic_fwh_zero_flow (Fin 200) (Fin 200) (Fin 0) (Fin 1) =
     Some \<lparr> b_state = \<lparr> s_flow = Fin 0.1, s_width = Fin 200, s_height = Fin 200 \<rparr>,
            b_rms = Fin (sqrt (10000000000 / 3)),
            b_calc = calcRectNums (Fin 200) (Fin 200) (Fin 0.1) (Fin 20) (Fin 50)
                       ''Galvanised steel'' \<rparr>"
proof -
  let ?ctx = "magic_context magic_fwh_zero_flow (Fin 200) (Fin 200) (Fin 0) (Fin 1)"
  let ?st = "\<lparr> s_flow = Fin 0.1, s_width = Fin 200, s_height = Fin 200 \<rparr>"
  have init: "initial_state (tgt ?ctx) = ?st"
    by (simp add: initial_state_def magic_context_def magic_targets_def magic_fwh_zero_flow_def
        office_def flowInputToM3s_def safeNum_def lsToM3s_def rnd_small)
  have lk: "l_flow (locked ?ctx)" "l_width (locked ?ctx)" "l_height (locked ?ctx)"
    by (simp_all add: magic_context_def magic_fwh_zero_flow_def office_def no_locks_def)
  have rd: "magic_round ?ctx ?st = ?st"
    by (rule magic_round_all_locked[OF lk])
  have nl: "\<not> nlt (rms (residuals ?ctx ?st)) (Fin 0.0001)"
    using sqrt_big by (simp add: zero_flow_rms)
  have cc: "res_calc (residuals ?ctx ?st) =
      calcRectNums (Fin 200) (Fin 200) (Fin 0.1) (Fin 20) (Fin 50) ''Galvanised steel''"
    by (simp add: residuals_def Let_def magic_context_def magic_fwh_zero_flow_def office_def
        safeNum_def)
  have "magic_loop ?ctx (Suc 199) ?st None =
     Some \<lparr> b_state = ?st, b_rms = rms (residuals ?ctx ?st),
            b_calc = res_calc (residuals ?ctx ?st) \<rparr>"
    by (rule magic_loop_stuck_None[OF rd nl])
  then show ?thesis
    by (simp add: magic_search_def Let_def init zero_flow_rms cc)
qed

text \<open>
  Counterexample to C1 as stated.  With flow, width and height locked (three locks) and
  the flow field at 0, the search ends with an RMS residual of \<open>sqrt (10^10 / 3)\<close>, which is
  not below 0.0001; the solve still produces a result, and no warning.
\<close>

theorem magic_result_without_convergence:
  "lockedCount (magicLocks magic_fwh_zero_flow) = 3
   \<and> map_option b_rms (magic_search magic_fwh_zero_flow (Fin 200) (Fin 200) (Fin 0) (Fin 1))
       = Some (Fin (sqrt (10000000000 / 3)))
   \<and> \<not> nlt (Fin (sqrt (10000000000 / 3))) (Fin 0.0001)
   \<and> results (runSolverWithValues magic_fwh_zero_flow (Fin 200) (Fin 200) (Fin 0) (Fin 0) (Fin 1))
       \<noteq> None
   \<and> warnings (runSolverWithValues magic_fwh_zero_flow (Fin 200) (Fin 200) (Fin 0) (Fin 0) (Fin 1))
       = []"
proof -
  have m: "mode magic_fwh_zero_flow = Magic" and w: "warnings magic_fwh_zero_flow = []"
    by (simp_all add: magic_fwh_zero_flow_def office_def)
  have lc: "lockedCount (magicLocks magic_fwh_zero_flow) = 3"
    by (simp add: lockedCount_def magic_fwh_zero_flow_def office_def no_locks_def)
  show ?thesis
    using sqrt_big by (simp add: lc zero_flow_search runSolverWithValues_def m w Let_def)
qed

lemma nlt_trans: "nlt x y \<Longrightarrow> nlt y z \<Longrightarrow> nlt x z"
  by (cases x; cases y; cases z) auto

lemma nlt_irrefl: "\<not> nlt x x"
  by (cases x) auto

text \<open>
  \<^verbatim>\<open>best\<close> is the state of a round, and unless the search stopped converged no round had
  an RMS below the one recorded.
\<close>

lemma magic_loop_best:
  assumes "\<forall>s\<in>set seen. \<not> nlt (rms (residuals ctx s)) (b_rms b0)"
  shows "\<exists>b. magic_loop ctx n st (Some b0) = Some b
     \<and> (b = b0 \<or> (\<exists>s\<in>set (magic_rounds ctx n st). b = best_of ctx s))
     \<and> (nlt (b_rms b) (Fin 0.0001)
        \<or> (\<forall>s\<in>set seen \<union> set (magic_rounds ctx n st). \<not> nlt (rms (residuals ctx s)) (b_rms b)))"
  using assms
proof (induction n arbitrary: st b0 seen)
  case 0
  then show ?case by simp
next
  case (Suc n)
  let ?st = "magic_round ctx st"
  let ?new = "best_of ctx ?st"
  let ?b = "if nlt (rms (residuals ctx ?st)) (b_rms b0) then ?new else b0"
  have step: "magic_loop ctx (Suc n) st (Some b0) =
      (if nlt (b_rms ?b) (Fin 0.0001) then Some ?b else magic_loop ctx n ?st (Some ?b))"
    by (simp add: Let_def best_of_def)
  have src: "?b = b0 \<or> ?b = ?new" by simp
  have inv: "\<forall>s\<in>set (?st # seen). \<not> nlt (rms (residuals ctx s)) (b_rms ?b)"
  proof (cases "nlt (rms (residuals ctx ?st)) (b_rms b0)")
    case True
    have "\<not> nlt (rms (residuals ctx s)) (rms (residuals ctx ?st))" if "s \<in> set seen" for s
      using Suc.prems that nlt_trans[OF _ True] by blast
    then show ?thesis using True by (simp add: best_of_def nlt_irrefl)
  next
    case False
    then show ?thesis using Suc.prems by simp
  qed
  show ?case
  proof (cases "nlt (b_rms ?b) (Fin 0.0001)")
    case True
    then have eq: "magic_loop ctx (Suc n) st (Some b0) = Some ?b" using step by simp
    show ?thesis unfolding eq using src True by auto
  next
    case False
    then have eq: "magic_loop ctx (Suc n) st (Some b0) = magic_loop ctx n ?st (Some ?b)"
      using step by simp
    obtain b where b: "magic_loop ctx n ?st (Some ?b) = Some b"
      and o: "b = ?b \<or> (\<exists>s\<in>set (magic_rounds ctx n ?st). b = best_of ctx s)"
      and m: "nlt (b_rms b) (Fin 0.0001)
        \<or> (\<forall>s\<in>set (?st # seen) \<union> set (magic_rounds ctx n ?st).
              \<not> nlt (rms (residuals ctx s)) (b_rms b))"
      using Suc.IH[OF inv] by blast
    have o': "b = b0 \<or> (\<exists>s\<in>set (magic_rounds ctx (Suc n) st). b = best_of ctx s)"
      using o src by auto
    have m': "nlt (b_rms b) (Fin 0.0001)
        \<or> (\<forall>s\<in>set seen \<union> set (magic_rounds ctx (Suc n) st).
              \<not> nlt (rms (residuals ctx s)) (b_rms b))"
      using m by auto
    show ?thesis unfolding eq using b o' m' by blast
  qed
qed

lemma magic_loop_best_None:
  "\<exists>b. magic_loop ctx (Suc n) st None = Some b
     \<and> (\<exists>s\<in>set (magic_rounds ctx (Suc n) st). b = best_of ctx s)
     \<and> (nlt (b_rms b) (Fin 0.0001)
        \<or> (\<forall>s\<in>set (magic_rounds ctx (Suc n) st). \<not> nlt (rms (residuals ctx s)) (b_rms b)))"
proof -
  let ?st = "magic_round ctx st"
  let ?new = "best_of ctx ?st"
  have step: "magic_loop ctx (Suc n) st None =
      (if nlt (b_rms ?new) (Fin 0.0001) then Some ?new else magic_loop ctx n ?st (Some ?new))"
    by (simp add: Let_def best_of_def)
  show ?thesis
  proof (cases "nlt (b_rms ?new) (Fin 0.0001)")
    case True
    then have eq: "magic_loop ctx (Suc n) st None = Some ?new" using step by simp
    show ?thesis unfolding eq using True by auto
  next
    case False
    then have eq: "magic_loop ctx (Suc n) st None = magic_loop ctx n ?st (Some ?new)"
      using step by simp
    have inv: "\<forall>s\<in>set [?st]. \<not> nlt (rms (residuals ctx s)) (b_rms ?new)"
      by (simp add: best_of_def nlt_irrefl)
    obtain b where b: "magic_loop ctx n ?st (Some ?new) = Some b"
      and o: "b = ?new \<or> (\<exists>s\<in>set (magic_rounds ctx n ?st). b = best_of ctx s)"
      and m: "nlt (b_rms b) (Fin 0.0001)
        \<or> (\<forall>s\<in>set [?st] \<union> set (magic_rounds ctx n ?st).
              \<not> nlt (rms (residuals ctx s)) (b_rms b))"
      using magic_loop_best[OF inv] by blast
    have o': "\<exists>s\<in>set (magic_rounds ctx (Suc n) st). b = best_of ctx s"
      using o by auto
    have m': "nlt (b_rms b) (Fin 0.0001)
        \<or> (\<forall>s\<in>set (magic_rounds ctx (Suc n) st). \<not> nlt (rms (residuals ctx s)) (b_rms b))"
      using m by auto
    show ?thesis unfolding eq using b o' m' by blast
  qed
qed

text \<open>
  Claim C1, as amended.  A magic-mode solve with exactly 2 or 3 constraints locked ends
  with the state of one of its rounds as the best state: a converged one, with an RMS
  residual below 0.0001, or else one whose RMS no round of the 200 went below.  Whenever
  that RMS is finite, converged or not, the outcome is a result holding that state and its
  evaluation, and no warning is added; so a result never comes together with the warning
  that the solver failed to converge.  The outcome for a best RMS that is not finite is
  left open.
\<close>

theorem magic_reports_best_state:
  assumes "mode a = Magic"
    and "lockedCount (magicLocks a) = 2 \<or> lockedCount (magicLocks a) = 3"
  shows "\<exists>b. magic_search a w h v d = Some b
     \<and> (\<exists>s\<in>set (magic_rounds (magic_context a w h v d) 200
                    (initial_state (tgt (magic_context a w h v d)))).
           b = best_of (magic_context a w h v d) s)
     \<and> (nlt (b_rms b) (Fin 0.0001)
        \<or> (\<forall>s\<in>set (magic_rounds (magic_context a w h v d) 200
                       (initial_state (tgt (magic_context a w h v d)))).
              \<not> nlt (rms (residuals (magic_context a w h v d) s)) (b_rms b)))
     \<and> (isFinite (b_rms b) \<longrightarrow>
          runSolverWithValues a w h fi v d =
            a\<lparr> width := s_width (b_state b), height := s_height (b_state b),
               flowInput := s_flow (b_state b),
               results := Some (MagicResult (s_width (b_state b)) (s_height (b_state b))
                  (s_flow (b_state b))
                  (cV (calcRectNums (s_width (b_state b)) (s_height (b_state b))
                         (s_flow (b_state b)) (safeNum (temperature a) (Fin 20))
                         (safeNum (rh a) (Fin 50)) (material a)))
                  (dp_per_m (calcRectNums (s_width (b_state b)) (s_height (b_state b))
                         (s_flow (b_state b)) (safeNum (temperature a) (Fin 20))
                         (safeNum (rh a) (Fin 50)) (material a)))),
               stale := False \<rparr>
          \<and> warnings (runSolverWithValues a w h fi v d) = warnings a)"
proof -
  let ?ctx = "magic_context a w h v d"
  have e: "(200::nat) = Suc 199" by simp
  obtain b where b: "magic_search a w h v d = Some b"
    and o: "\<exists>s\<in>set (magic_rounds ?ctx 200 (initial_state (tgt ?ctx))). b = best_of ?ctx s"
    and m: "nlt (b_rms b) (Fin 0.0001)
        \<or> (\<forall>s\<in>set (magic_rounds ?ctx 200 (initial_state (tgt ?ctx))).
              \<not> nlt (rms (residuals ?ctx s)) (b_rms b))"
    unfolding magic_search_def Let_def e
    using magic_loop_best_None[of ?ctx 199 "initial_state (tgt ?ctx)"] by blast
  have "runSolverWithValues a w h fi v d =
            a\<lparr> width := s_width (b_state b), height := s_height (b_state b),
               flowInput := s_flow (b_state b),
               results := Some (MagicResult (s_width (b_state b)) (s_height (b_state b))
                  (s_flow (b_state b))
                  (cV (calcRectNums (s_width (b_state b)) (s_height (b_state b))
                         (s_flow (b_state b)) (safeNum (temperature a) (Fin 20))
                         (safeNum (rh a) (Fin 50)) (material a)))
                  (dp_per_m (calcRectNums (s_width (b_state b)) (s_height (b_state b))
                         (s_flow (b_state b)) (safeNum (temperature a) (Fin 20))
                         (safeNum (rh a) (Fin 50)) (material a)))),
               stale := False \<rparr>"
    using assms b by (auto simp add: runSolverWithValues_def Let_def)
  then show ?thesis using b o m by auto
qed

text \<open>
  Witness for C1: three locks and the flow field at 0; the best RMS is finite and not
  below 0.0001.
\<close>

theorem magic_reports_best_state_witness:
  "mode magic_fwh_zero_flow = Magic
   \<and> lockedCount (magicLocks magic_fwh_zero_flow) = 3
   \<and> map_option b_state (magic_search magic_fwh_zero_flow (Fin 200) (Fin 200) (Fin 0) (Fin 1))
       = Some \<lparr> s_flow = Fin 0.1, s_width = Fin 200, s_height = Fin 200 \<rparr>
   \<and> map_option b_rms (magic_search magic_fwh_zero_flow (Fin 200) (Fin 200) (Fin 0) (Fin 1))
       = Some (Fin (sqrt (10000000000 / 3)))
   \<and> isFinite (Fin (sqrt (10000000000 / 3)))
   \<and> results (runSolverWithValues magic_fwh_zero_flow (Fin 200) (Fin 200) (Fin 0) (Fin 0) (Fin 1))
       = Some (MagicResult (Fin 200) (Fin 200) (Fin 0.1)
           (cV (calcRectNums (Fin 200) (Fin 200) (Fin 0.1) (Fin 20) (Fin 50) ''Galvanised steel''))
           (dp_per_m (calcRectNums (Fin 200) (Fin 200) (Fin 0.1) (Fin 20) (Fin 50)
              ''Galvanised steel'')))
   \<and> warnings (runSolverWithValues magic_fwh_zero_flow (Fin 200) (Fin 200) (Fin 0) (Fin 0) (Fin 1))
       = []"
proof -
  have m: "mode magic_fwh_zero_flow = Magic"
    and lc: "lockedCount (magicLocks magic_fwh_zero_flow) = 3"
    and e: "temperature magic_fwh_zero_flow = Fin 20" "rh magic_fwh_zero_flow = Fin 50"
      "material magic_fwh_zero_flow = ''Galvanised steel''" "warnings magic_fwh_zero_flow = []"
    by (simp_all add: lockedCount_def magic_fwh_zero_flow_def office_def no_locks_def)
  from magic_reports_best_state[OF m, of "Fin 200" "Fin 200" "Fin 0" "Fin 1" "Fin 0"] lc
  show ?thesis
    unfolding zero_flow_search by (simp add: m lc e safeNum_def)
qed

section \<open>One variable of one round\<close>

lemma rms_fw:
  "s_flow s = Fin 0.1 \<Longrightarrow> s_width s = Fin 200 \<Longrightarrow> rms (residuals ctx_fw s) = Fin 0"
  by (simp add: residuals_def ctx_fw_def no_locks_def rel_residual_def nsub_def nmax_def
      rnd_small Let_def)

lemma trial_fw:
  "trial_state st_200 VHeight d = \<lparr> s_flow = Fin 0.1, s_width = Fin 200,
      s_height = nmax (nmul (Fin 200) d) (Fin 10) \<rparr>"
  by (simp add: trial_state_def st_200_def nmax_def Let_def)

lemma dirs_height: "dirs VHeight = [Fin (20 / 21), Fin 1.05]"
  by (simp add: dirs_def rnd_small)

lemma trial_fw_down: "s_height (trial_state st_200 VHeight (Fin (20 / 21))) = Fin (4000 / 21)"
  by (simp only: trial_fw) (simp add: rnd_small nmax_def)

text \<open>
  Counterexample to C2 as stated.  Flow and width are locked and met, so the RMS residual
  is 0 for the current state and for both perturbations of the height: neither
  perturbation improves on the original.  The height still moves from 200 to 200 / 1.05.
\<close>

theorem descend_moves_without_improvement:
  "\<not> var_locked (locked ctx_fw) VHeight
   \<and> \<not> nlt (rms (residuals ctx_fw (trial_state st_200 VHeight (ndiv (Fin 1) (Fin 1.05)))))
           (rms (residuals ctx_fw st_200))
   \<and> \<not> nlt (rms (residuals ctx_fw (trial_state st_200 VHeight (Fin 1.05))))
           (rms (residuals ctx_fw st_200))
   \<and> s_height (descend_var ctx_fw st_200 VHeight) = Fin (4000 / 21)
   \<and> s_height st_200 = Fin 200
   \<and> s_height (descend_var ctx_fw st_200 VHeight) \<noteq> s_height st_200"
proof -
  have a: "rms (residuals ctx_fw st_200) = Fin 0"
    by (rule rms_fw) (simp_all add: st_200_def)
  have b: "rms (residuals ctx_fw (trial_state st_200 VHeight d)) = Fin 0" for d
    by (rule rms_fw) (simp_all add: trial_fw)
  have "s_height (descend_var ctx_fw st_200 VHeight) = Fin (4000 / 21)"
    by (simp add: descend_var_def dirs_height try_dir_def b trial_fw_down Let_def)
       (simp add: ctx_fw_def no_locks_def)
  then show ?thesis
    by (simp add: a b) (simp add: ctx_fw_def no_locks_def st_200_def)
qed

lemma descend_var_flow:
  "descend_var ctx st VFlow
     = rule_for ctx (l_flow (locked ctx)) s_flow (\<lambda>s x. s\<lparr> s_flow := x \<rparr>) (Fin 1.1) st"
  by (simp add: descend_var_def rule_for_def dirs_def try_dir_def trial_state_def floored_def
      Let_def)

lemma descend_var_width:
  "descend_var ctx st VWidth
     = rule_for ctx (l_width (locked ctx)) s_width (\<lambda>s x. s\<lparr> s_width := x \<rparr>) (Fin 1.05) st"
  by (simp add: descend_var_def rule_for_def dirs_def try_dir_def trial_state_def floored_def
      Let_def)

lemma descend_var_height:
  "descend_var ctx st VHeight
     = rule_for ctx (l_height (locked ctx)) s_height (\<lambda>s x. s\<lparr> s_height := x \<rparr>) (Fin 1.05) st"
  by (simp add: descend_var_def rule_for_def dirs_def try_dir_def trial_state_def floored_def
      Let_def)

text \<open>
  Claim C2, as amended.  Every round of the magic solver takes the variables flow, width
  and height in this order and leaves a locked one alone.  For an unlocked one it
  evaluates the RMS residual of two perturbed states, the value times 1 / step and the
  value times step (step 1.1 for the flow, 1.05 for the width and the height), each with
  the floors applied (flow 0.000001, width 10, height 10), and moves the variable to the
  perturbed value with the lower RMS, the first on a tie.  It keeps the original value
  only when neither RMS is below \<open>+\<infinity>\<close>; the RMS of the original value is not evaluated.
\<close>

theorem magic_round_rule:
  "magic_round ctx st = rule_round ctx st
 \<and> magic_loop ctx (Suc n) st bst =
     (let st' = rule_round ctx st;
          cur = residuals ctx st';
          new = \<lparr> b_state = st', b_rms = rms cur, b_calc = res_calc cur \<rparr>;
          bst' = (case bst of None \<Rightarrow> new
                  | Some b \<Rightarrow> if nlt (rms cur) (b_rms b) then new else b)
      in if nlt (b_rms bst') (Fin 0.0001) then Some bst'
         else magic_loop ctx n st' (Some bst'))"
proof -
  have r: "magic_round ctx st = rule_round ctx st" for st
    by (simp add: magic_round_def rule_round_def descend_var_flow descend_var_width
        descend_var_height Let_def)
  show ?thesis by (simp add: r Let_def)
qed

text \<open>
  Witness for C2: flow and width locked and met, height unlocked.  Both perturbations of
  the height have the RMS 0, and the round moves the height from 200 to 200 / 1.05.
\<close>

theorem magic_round_rule_witness:
  "magic_round ctx_fw st_200 = st_200\<lparr> s_height := Fin (4000 / 21) \<rparr>
   \<and> rule_round ctx_fw st_200 = st_200\<lparr> s_height := Fin (4000 / 21) \<rparr>
   \<and> map_option b_state (magic_loop ctx_fw (Suc 0) st_200 None)
       = Some (st_200\<lparr> s_height := Fin (4000 / 21) \<rparr>)
   \<and> map_option b_rms (magic_loop ctx_fw (Suc 0) st_200 None) = Some (Fin 0)"
proof -
  have lk: "l_flow (locked ctx_fw) = True" "l_width (locked ctx_fw) = True"
    "l_height (locked ctx_fw) = False"
    by (simp_all add: ctx_fw_def no_locks_def)
  have z: "rms (residuals ctx_fw (floored (st_200\<lparr> s_height := x \<rparr>))) = Fin 0" for x
    by (rule rms_fw) (simp_all add: floored_def st_200_def nmax_def)
  have t: "rule_for ctx_fw True rd wr step st = st" for rd wr step st
    by (simp add: rule_for_def)
  have s3: "rule_for ctx_fw False s_height (\<lambda>s x. s\<lparr> s_height := x \<rparr>) (Fin 1.05) st_200
      = st_200\<lparr> s_height := Fin (4000 / 21) \<rparr>"
    unfolding rule_for_def Let_def z
    by (simp add: floored_def st_200_def nmax_def rnd_small)
  have rr: "rule_round ctx_fw st_200 = st_200\<lparr> s_height := Fin (4000 / 21) \<rparr>"
    unfolding rule_round_def Let_def lk t s3 ..
  have z': "rms (residuals ctx_fw (st_200\<lparr> s_height := x \<rparr>)) = Fin 0" for x
    by (rule rms_fw) (simp_all add: st_200_def)
  note rule = magic_round_rule[of ctx_fw st_200 0 None]
  have mr: "magic_round ctx_fw st_200 = rule_round ctx_fw st_200"
    using rule by (rule conjunct1)
  have "magic_loop ctx_fw (Suc 0) st_200 None =
      Some \<lparr> b_state = st_200\<lparr> s_height := Fin (4000 / 21) \<rparr>, b_rms = Fin 0,
             b_calc = res_calc (residuals ctx_fw (st_200\<lparr> s_height := Fin (4000 / 21) \<rparr>)) \<rparr>"
    unfolding conjunct2[OF rule] rr Let_def z' by simp
  then show ?thesis by (simp add: mr rr)
qed

section \<open>The maximum-flow bisection\<close>

text \<open>One iteration of the loop, in terms of the midpoint.\<close>

lemma smf_step:
  assumes "nmul (Fin 0.5) (nadd lo hi) = m"
  shows "smf_loop a w h target (Suc n) lo hi bestQ =
     (let dp = smf_dp a (mToMm w) (mToMm h) m
      in if \<not> isFinite dp then bestQ
         else if ngt dp target
              then (if within_tol dp target then bestQ else smf_loop a w h target n lo m bestQ)
              else (if within_tol dp target then m else smf_loop a w h target n m hi m))"
  using assms by (simp add: Let_def smf_dp_def)

lemma last_feasible_Nil: "last_feasible t [] b = b"
  by (simp add: last_feasible_def)

lemma last_feasible_Cons:
  "last_feasible t ((m, d) # vs) b = last_feasible t vs (if ngt d t then b else m)"
  by (cases "filter (\<lambda>(m, d). \<not> ngt d t) vs") (simp_all add: last_feasible_def)

lemma smf_loop_visits:
  "smf_loop a w h t n lo hi bestQ = last_feasible t (smf_visits a w h t n lo hi) bestQ"
proof (induction n arbitrary: lo hi bestQ)
  case 0
  show ?case by (simp add: last_feasible_Nil)
next
  case (Suc n)
  show ?case
    by (simp add: Let_def smf_dp_def last_feasible_Nil last_feasible_Cons Suc)
qed

text \<open>
  The invariant of the loop: \<^verbatim>\<open>bestQ\<close> is 0 or a flow of the search interval that was
  evaluated and found feasible.
\<close>

lemma smf_loop_inv:
  assumes "1 / 1000000 \<le> l" "l \<le> u" "u \<le> 10"
    and "bestQ = Fin 0 \<or> (\<exists>b. bestQ = Fin b \<and> 1 / 1000000 \<le> b \<and> b \<le> 10
           \<and> feasible a (mToMm w) (mToMm h) target bestQ)"
  shows "smf_loop a w h target n (Fin l) (Fin u) bestQ = Fin 0
       \<or> (\<exists>b. smf_loop a w h target n (Fin l) (Fin u) bestQ = Fin b
              \<and> 1 / 1000000 \<le> b \<and> b \<le> 10
              \<and> feasible a (mToMm w) (mToMm h) target (Fin b))"
  using assms
proof (induction n arbitrary: l u bestQ)
  case 0
  then show ?case by auto
next
  case (Suc n)
  let ?m = "(l + u) / 2"
  have mid: "nmul (Fin 0.5) (nadd (Fin l) (Fin u)) = Fin ?m"
    using Suc.prems by (intro mid_val) auto
  have mb: "1 / 1000000 \<le> ?m" "l \<le> ?m" "?m \<le> u" "?m \<le> 10"
    using Suc.prems by auto
  let ?dp = "smf_dp a (mToMm w) (mToMm h) (Fin ?m)"
  note step = smf_step[OF mid, of a w h target n bestQ]
  show ?case
  proof (cases "isFinite ?dp \<and> \<not> within_tol ?dp target")
    case False
    show ?thesis
    proof (cases "isFinite ?dp \<and> \<not> ngt ?dp target")
      case True
      then have eq: "smf_loop a w h target (Suc n) (Fin l) (Fin u) bestQ = Fin ?m"
        using False unfolding step Let_def by simp
      have "feasible a (mToMm w) (mToMm h) target (Fin ?m)"
        using True by (simp add: feasible_def)
      then show ?thesis unfolding eq using mb by blast
    next
      case nf: False
      then have eq: "smf_loop a w h target (Suc n) (Fin l) (Fin u) bestQ = bestQ"
        using False unfolding step Let_def by auto
      show ?thesis unfolding eq using Suc.prems(4) by auto
    qed
  next
    case go: True
    show ?thesis
    proof (cases "ngt ?dp target")
      case True
      then have eq: "smf_loop a w h target (Suc n) (Fin l) (Fin u) bestQ =
          smf_loop a w h target n (Fin l) (Fin ?m) bestQ"
        using go unfolding step Let_def by simp
      show ?thesis
        unfolding eq using Suc.IH[of l ?m bestQ] Suc.prems mb by blast
    next
      case False
      have fe: "feasible a (mToMm w) (mToMm h) target (Fin ?m)"
        using go False by (simp add: feasible_def)
      have eq: "smf_loop a w h target (Suc n) (Fin l) (Fin u) bestQ =
          smf_loop a w h target n (Fin ?m) (Fin u) (Fin ?m)"
        using go False unfolding step Let_def by simp
      show ?thesis
        unfolding eq using Suc.IH[of ?m u "Fin ?m"] Suc.prems mb fe by blast
    qed
  qed
qed

text \<open>The guard of \<^verbatim>\<open>solveMaxFlow\<close> in terms of its arguments.\<close>

lemma solveMaxFlow_cases:
  "solveMaxFlow a w h t =
     (if \<not> (isFinite w \<and> ngt w (Fin 0)) \<or> \<not> (isFinite h \<and> ngt h (Fin 0))
         \<or> \<not> (isFinite t \<and> ngt t (Fin 0)) then None
      else Some (smf_loop a (mmToM w) (mmToM h) t 80 (Fin 0.000001) (Fin 10) (Fin 0)))"
proof (cases "isFinite w \<and> isFinite h \<and> isFinite t")
  case True
  then have "safeNum w (Fin 0) = w" "safeNum h (Fin 0) = h" "safeNum t (Fin 0) = t"
    by (simp_all add: safeNum_def)
  then show ?thesis
    using mmToM_safe_nle[of w] mmToM_safe_nle[of h] safe_nle[of t]
    by (simp add: solveMaxFlow_def Let_def)
next
  case False
  then show ?thesis
    using mmToM_safe_nle[of w] mmToM_safe_nle[of h] safe_nle[of t]
    by (auto simp add: solveMaxFlow_def Let_def)
qed

lemma maxflow_absolute_zero:
  assumes "isFinite w" "ngt w (Fin 0)" "isFinite h" "ngt h (Fin 0)" "isFinite t" "ngt t (Fin 0)"
  shows "solveMaxFlow absolute_zero w h t = Some (Fin 0)"
proof -
  have "smf_loop absolute_zero (mmToM w) (mmToM h) t 80 (Fin 0.000001) (Fin 10) (Fin 0) = Fin 0"
    using smf_loop_inv[of "1 / 1000000" 10 "Fin 0" absolute_zero "mmToM w" "mmToM h" t 80]
      dp_absolute_zero by (auto simp: feasible_def)
  then show ?thesis using assms by (simp add: solveMaxFlow_cases)
qed

text \<open>
  Counterexample to C6 as stated: with width 0 the function returns \<^verbatim>\<open>null\<close>, not the
  flow 0.
\<close>

theorem solveMaxFlow_null_on_bad_input:
  "solveMaxFlow office (Fin 0) (Fin 200) (Fin 1) = None
   \<and> solveMaxFlow office (Fin 0) (Fin 200) (Fin 1) \<noteq> Some (Fin 0)"
  by (simp add: solveMaxFlow_cases ngt_def)

lemma smf_visits_abort:
  "\<not> isFinite (smf_dp a (mToMm w) (mToMm h) (nmul (Fin 0.5) (nadd lo hi)))
   \<Longrightarrow> smf_visits a w h t (Suc n) lo hi = []"
  by (simp add: Let_def)

text \<open>
  Claim C6, as amended.  \<^verbatim>\<open>solveMaxFlow\<close> returns \<^verbatim>\<open>null\<close> when a precondition is violated:
  the width or the height in metres, or the target, is not above 0 as the function tests
  it (after a non-finite input has been replaced by 0); so for every width, height or
  target that is not a finite number above 0.  When the preconditions hold it returns a
  flow: the last midpoint that the bisection evaluated with a finite pressure drop of at
  most the target, and the flow 0 when it evaluated no such midpoint before it ended or
  the first evaluation that is not finite aborted it.
\<close>

theorem solveMaxFlow_null_or_last_feasible:
  "(\<not> (isFinite w \<and> ngt w (Fin 0)) \<or> \<not> (isFinite h \<and> ngt h (Fin 0))
      \<or> \<not> (isFinite t \<and> ngt t (Fin 0)) \<longrightarrow> solveMaxFlow a w h t = None)
 \<and> (nle (mmToM (safeNum w (Fin 0))) (Fin 0) \<or> nle (mmToM (safeNum h (Fin 0))) (Fin 0)
      \<or> nle (safeNum t (Fin 0)) (Fin 0) \<longrightarrow> solveMaxFlow a w h t = None)
 \<and> (\<not> (nle (mmToM (safeNum w (Fin 0))) (Fin 0) \<or> nle (mmToM (safeNum h (Fin 0))) (Fin 0)
         \<or> nle (safeNum t (Fin 0)) (Fin 0)) \<longrightarrow>
      solveMaxFlow a w h t =
        Some (last_feasible (safeNum t (Fin 0))
                (smf_visits a (mmToM (safeNum w (Fin 0))) (mmToM (safeNum h (Fin 0)))
                   (safeNum t (Fin 0)) 80 (Fin 0.000001) (Fin 10))
                (Fin 0)))"
  using mmToM_safe_nle[of w] mmToM_safe_nle[of h] safe_nle[of t]
  by (simp add: solveMaxFlow_def Let_def smf_loop_visits)

text \<open>
  Witness for C6: width 0 violates the precondition; at absolute zero the first evaluation
  is NaN, so the bisection of a 200 mm by 200 mm duct is aborted with no midpoint kept.
\<close>

theorem solveMaxFlow_null_or_last_feasible_witness:
  "\<not> (isFinite (Fin 0) \<and> ngt (Fin 0) (Fin 0))
   \<and> nle (mmToM (safeNum (Fin 0) (Fin 0))) (Fin 0)
   \<and> solveMaxFlow office (Fin 0) (Fin 200) (Fin 1) = None
   \<and> \<not> nle (mmToM (safeNum (Fin 200) (Fin 0))) (Fin 0) \<and> \<not> nle (safeNum (Fin 1) (Fin 0)) (Fin 0)
   \<and> smf_visits absolute_zero (mmToM (safeNum (Fin 200) (Fin 0))) (mmToM (safeNum (Fin 200) (Fin 0)))
        (safeNum (Fin 1) (Fin 0)) 80 (Fin 0.000001) (Fin 10) = []
   \<and> solveMaxFlow absolute_zero (Fin 200) (Fin 200) (Fin 1) = Some (Fin 0)"
proof -
  have v: "smf_visits absolute_zero x y t (Suc 79) lo hi = []" for x y t lo hi
    by (rule smf_visits_abort) (rule dp_absolute_zero)
  have g: "\<not> nle (mmToM (safeNum (Fin 200) (Fin 0))) (Fin 0)" "\<not> nle (safeNum (Fin 1) (Fin 0)) (Fin 0)"
    "nle (mmToM (safeNum (Fin 0) (Fin 0))) (Fin 0)"
    by (simp_all add: mmToM_def safeNum_def rnd_small)
  have e: "(80::nat) = Suc 79" by simp
  show ?thesis
    using solveMaxFlow_null_or_last_feasible[of "Fin 0" "Fin 200" "Fin 1" office]
      solveMaxFlow_null_or_last_feasible[of "Fin 200" "Fin 200" "Fin 1" absolute_zero] g
    unfolding e v by (simp add: last_feasible_Nil ngt_def)
qed

text \<open>The flow 0 evaluates to NaN, or to \<open>+\<infinity>\<close> where the hydraulic diameter is not above 0.\<close>

lemma zero_or_NaN_mul: "z = Fin 0 \<or> z = NaN \<Longrightarrow> nmul z x = Fin 0 \<or> nmul z x = NaN"
  using nmul_zero_left[of x] by auto

lemma zero_or_NaN_div: "z = Fin 0 \<or> z = NaN \<Longrightarrow> ndiv z x = Fin 0 \<or> ndiv z x = NaN"
  by (cases x) (auto simp: rnd_0)

lemma haaland_zero_or_NaN: "z = Fin 0 \<or> z = NaN \<Longrightarrow> haalandFrictionFactor z e = NaN"
  by (auto simp: haalandFrictionFactor_def)

lemma velocity_zero_flow: "(if ngt A (Fin 0) then ndiv (Fin 0) A else Fin 0) = Fin 0"
  by (cases A) (auto simp: ngt_def rnd_0)

lemma dp_form_zero_flow:
  assumes "z = Fin 0 \<or> z = NaN"
  shows "(if ngt Dh (Fin 0) then ndiv (nmul (haalandFrictionFactor (ndiv (nmul z Dh) mu) e) X) Y
          else PInf) = NaN
       \<or> (if ngt Dh (Fin 0) then ndiv (nmul (haalandFrictionFactor (ndiv (nmul z Dh) mu) e) X) Y
          else PInf) = PInf"
proof -
  have "ndiv (nmul z Dh) mu = Fin 0 \<or> ndiv (nmul z Dh) mu = NaN"
    by (intro zero_or_NaN_div zero_or_NaN_mul assms)
  then have "haalandFrictionFactor (ndiv (nmul z Dh) mu) e = NaN"
    by (rule haaland_zero_or_NaN)
  then show ?thesis by simp
qed

lemma dp_zero_flow:
  "dp_per_m (calcRectNums w h (Fin 0) T RH m) = NaN \<or> dp_per_m (calcRectNums w h (Fin 0) T RH m) = PInf"
proof -
  define rho where "rho = moistAirDensity (Fin 101325) T RH"
  define Dh where "Dh = (if ngt (rectArea_m2_from_mm w h) (Fin 0)
      then ndiv (nmul (Fin 4) (rectArea_m2_from_mm w h)) (rectPerimeter_m_from_mm w h) else Fin 0)"
  define z where "z = nmul rho (nabs (Fin 0))"
  have z: "z = Fin 0 \<or> z = NaN"
    unfolding z_def using nmul_zero_right[of rho] by simp
  have "dp_per_m (calcRectNums w h (Fin 0) T RH m) =
      (if ngt Dh (Fin 0)
       then ndiv (nmul (haalandFrictionFactor (ndiv (nmul z Dh) (dynamicViscosityAir T))
                     (ndiv (case ROUGHNESS m of Some e \<Rightarrow> e | None \<Rightarrow> Fin 0.00015)
                        (nmax Dh (Fin 0.000000001))))
                  (nmul (nmul rho (Fin 0)) (Fin 0)))
              (nmul (Fin 2) Dh)
       else PInf)"
    unfolding calcRectNums_def Let_def velocity_zero_flow rho_def[symmetric] Dh_def[symmetric]
      z_def[symmetric]
    by simp
  then show ?thesis using dp_form_zero_flow[OF z] by simp
qed

text \<open>\<^verbatim>\<open>bestQ\<close> never decreases.\<close>

lemma smf_loop_ge:
  assumes "0 < l" "l \<le> u" "u \<le> 10" "b \<le> l"
  shows "\<exists>r. smf_loop a w h target n (Fin l) (Fin u) (Fin b) = Fin r \<and> b \<le> r"
  using assms
proof (induction n arbitrary: l u b)
  case 0
  then show ?case by simp
next
  case (Suc n)
  let ?m = "(l + u) / 2"
  have mid: "nmul (Fin 0.5) (nadd (Fin l) (Fin u)) = Fin ?m"
    using Suc.prems by (intro mid_val) auto
  have mb: "0 < ?m" "l \<le> ?m" "?m \<le> u" "?m \<le> 10" "b \<le> ?m"
    using Suc.prems by auto
  obtain r1 where r1: "smf_loop a w h target n (Fin l) (Fin ?m) (Fin b) = Fin r1" "b \<le> r1"
    using Suc.IH[of l ?m b] Suc.prems mb by blast
  obtain r2 where r2: "smf_loop a w h target n (Fin ?m) (Fin u) (Fin ?m) = Fin r2" "?m \<le> r2"
    using Suc.IH[of ?m u ?m] Suc.prems mb by blast
  have "b \<le> r2" using r2 mb by linarith
  then show ?case
    unfolding smf_step[OF mid] Let_def using r1 r2 mb
    by (auto intro: exI[of _ "(l + u) / 2"])
qed

text \<open>
  A slot 1 mm wide and 1000 m high at 0 degrees: the flow is laminar over the whole search
  interval, so every evaluation is a rational number.
\<close>

lemma slot_geo:
  "mmToM (Fin 1) = Fin (1 / 1000)" "mmToM (Fin 1000000) = Fin 1000"
  "mToMm (Fin (1 / 1000)) = Fin 1" "mToMm (Fin 1000) = Fin 1000000"
  by (simp_all add: mmToM_def mToMm_def safeNum_def rnd_small)

lemma slot_dp:
  "smf_dp freezing (Fin 1) (Fin 1000000) (Fin (10000001 / 2000000))
     = Fin (4290009009005148000429 / 6250000000000000000)"
  "smf_dp freezing (Fin 1) (Fin 1000000) (Fin (30000001 / 4000000))
     = Fin (12870026169013728000429 / 12500000000000000000)"
  "smf_dp freezing (Fin 1) (Fin 1000000) (Fin (50000003 / 8000000))
     = Fin (21450044187024024001287 / 25000000000000000000)"
  by (simp_all add: smf_dp_def freezing_def office_def safeNum_def calc_defs rnd_small)

lemma slot_mids:
  "nmul (Fin 0.5) (nadd (Fin 0.000001) (Fin 10)) = Fin (10000001 / 2000000)"
  "nmul (Fin 0.5) (nadd (Fin (10000001 / 2000000)) (Fin 10)) = Fin (30000001 / 4000000)"
  "nmul (Fin 0.5) (nadd (Fin (10000001 / 2000000)) (Fin (30000001 / 4000000)))
     = Fin (50000003 / 8000000)"
  by (simp_all add: rnd_small)

text \<open>The target 1029.55: the second midpoint is just above it and within the tolerance.\<close>

lemma slot_high_target:
  "solveMaxFlow freezing (Fin 1) (Fin 1000000) (Fin 1029.55) = Some (Fin (10000001 / 2000000))"
proof -
  have t1: "\<not> within_tol (Fin (4290009009005148000429 / 6250000000000000000)) (Fin 1029.55)"
    and t2: "within_tol (Fin (12870026169013728000429 / 12500000000000000000)) (Fin 1029.55)"
    by (simp_all add: within_tol_def nsub_def nmax_def rnd_small)
  have "smf_loop freezing (Fin (1 / 1000)) (Fin 1000) (Fin 1029.55) (Suc (Suc 78))
      (Fin 0.000001) (Fin 10) (Fin 0) = Fin (10000001 / 2000000)"
    unfolding smf_step[OF slot_mids(1)] smf_step[OF slot_mids(2)] slot_geo slot_dp Let_def
    using t1 t2 by (simp add: ngt_def)
  then show ?thesis
    by (simp add: solveMaxFlow_def Let_def slot_geo safeNum_def)
qed

text \<open>The lower target 900: the third midpoint is feasible and kept.\<close>

lemma slot_low_target:
  "\<exists>r. solveMaxFlow freezing (Fin 1) (Fin 1000000) (Fin 900) = Some (Fin r) \<and> 50000003 / 8000000 \<le> r"
proof -
  have t: "\<not> within_tol (Fin (4290009009005148000429 / 6250000000000000000)) (Fin 900)"
    "\<not> within_tol (Fin (12870026169013728000429 / 12500000000000000000)) (Fin 900)"
    "\<not> within_tol (Fin (21450044187024024001287 / 25000000000000000000)) (Fin 900)"
    by (simp_all add: within_tol_def nsub_def nmax_def rnd_small)
  have "smf_loop freezing (Fin (1 / 1000)) (Fin 1000) (Fin 900) (Suc (Suc (Suc 77)))
      (Fin 0.000001) (Fin 10) (Fin 0)
    = smf_loop freezing (Fin (1 / 1000)) (Fin 1000) (Fin 900) 77
        (Fin (50000003 / 8000000)) (Fin (30000001 / 4000000)) (Fin (50000003 / 8000000))"
    unfolding smf_step[OF slot_mids(1)] smf_step[OF slot_mids(2)] smf_step[OF slot_mids(3)]
      slot_geo slot_dp Let_def
    using t by (simp add: ngt_def)
  moreover have "\<exists>r. smf_loop freezing (Fin (1 / 1000)) (Fin 1000) (Fin 900) 77
        (Fin (50000003 / 8000000)) (Fin (30000001 / 4000000)) (Fin (50000003 / 8000000)) = Fin r
      \<and> 50000003 / 8000000 \<le> r"
    by (rule smf_loop_ge) simp_all
  ultimately show ?thesis
    by (simp add: solveMaxFlow_def Let_def slot_geo safeNum_def)
qed

text \<open>
  Counterexample to C5 as stated.  At absolute zero a 200 mm by 200 mm duct gets the flow 0
  for the target 1, and the flow 0 evaluates to NaN, which is not at most the target plus
  the tolerance.  At 0 degrees a slot of 1 mm by 1000 m gets the flow 5.0000005 for the
  target 1029.55 and a flow above 5.0000005 for the lower target 900: the flow returned
  does not increase with the target, also where a flow is found.
\<close>

theorem maxflow_not_feasible_not_increasing:
  "solveMaxFlow absolute_zero (Fin 200) (Fin 200) (Fin 1) = Some (Fin 0)
   \<and> smf_dp absolute_zero (Fin 200) (Fin 200) (Fin 0) = NaN
   \<and> \<not> nle NaN (nadd (Fin 1) (Fin 0.0001))
   \<and> nlt (Fin 900) (Fin 1029.55)
   \<and> solveMaxFlow freezing (Fin 1) (Fin 1000000) (Fin 1029.55) = Some (Fin (10000001 / 2000000))
   \<and> map_option (nlt (Fin (10000001 / 2000000)))
        (solveMaxFlow freezing (Fin 1) (Fin 1000000) (Fin 900)) = Some True"
proof -
  have "smf_dp absolute_zero (Fin 200) (Fin 200) (Fin 0) = NaN"
    using mu_absolute_zero ndiv_zero_not_finite
    by (simp add: smf_dp_def absolute_zero_def office_def safeNum_def calcRectNums_def Let_def
        haaland_not_finite rectArea_m2_from_mm_def rectPerimeter_m_from_mm_def rnd_small nmax_def
        ngt_def)
  moreover obtain r where "solveMaxFlow freezing (Fin 1) (Fin 1000000) (Fin 900) = Some (Fin r)"
    "50000003 / 8000000 \<le> r"
    using slot_low_target by blast
  ultimately show ?thesis
    using slot_high_target by (simp add: maxflow_absolute_zero ngt_def)
qed

text \<open>
  Claim C5, as amended.  For every width, height, air state, material and target: when
  \<^verbatim>\<open>solveMaxFlow\<close> returns a flow other than 0, that flow, fed back through the evaluation at
  the geometry that the solver evaluates (the width and the height converted to metres and
  back to millimetres), gives a finite pressure drop of at most the target, hence of at
  most the target plus the tolerance.  The flow 0 is not covered: at every geometry it
  evaluates to NaN or to \<open>+\<infinity>\<close>.  Nothing is stated on the order of the flows returned for
  two targets.
\<close>

theorem solveMaxFlow_returns_feasible:
  "(solveMaxFlow a w h t = Some q \<and> truthy q \<longrightarrow>
      isFinite (smf_dp a (mToMm (mmToM (safeNum w (Fin 0)))) (mToMm (mmToM (safeNum h (Fin 0)))) q)
      \<and> nle (smf_dp a (mToMm (mmToM (safeNum w (Fin 0)))) (mToMm (mmToM (safeNum h (Fin 0)))) q) t)
 \<and> (smf_dp a w' h' (Fin 0) = NaN \<or> smf_dp a w' h' (Fin 0) = PInf)"
proof -
  have "isFinite (smf_dp a (mToMm (mmToM (safeNum w (Fin 0)))) (mToMm (mmToM (safeNum h (Fin 0)))) q)
      \<and> nle (smf_dp a (mToMm (mmToM (safeNum w (Fin 0)))) (mToMm (mmToM (safeNum h (Fin 0)))) q) t"
    if s: "solveMaxFlow a w h t = Some q" and tq: "truthy q"
  proof -
    have pre: "isFinite w" "isFinite h" "isFinite t"
      and q: "q = smf_loop a (mmToM w) (mmToM h) t 80 (Fin 0.000001) (Fin 10) (Fin 0)"
      using s by (auto simp: solveMaxFlow_cases split: if_splits)
    have sn: "safeNum w (Fin 0) = w" "safeNum h (Fin 0) = h"
      using pre by (simp_all add: safeNum_def)
    from smf_loop_inv[of "1 / 1000000" 10 "Fin 0" a "mmToM w" "mmToM h" t 80]
    have "q = Fin 0 \<or> (\<exists>b. q = Fin b \<and> 1 / 1000000 \<le> b \<and> b \<le> 10
        \<and> feasible a (mToMm (mmToM w)) (mToMm (mmToM h)) t (Fin b))"
      unfolding q by simp
    then have f: "feasible a (mToMm (mmToM w)) (mToMm (mmToM h)) t q"
      using tq by auto
    obtain tr where "t = Fin tr" using pre(3) by (cases t) auto
    then have "nle (smf_dp a (mToMm (mmToM w)) (mToMm (mmToM h)) q) t"
      using f by (cases "smf_dp a (mToMm (mmToM w)) (mToMm (mmToM h)) q")
        (auto simp: feasible_def ngt_def)
    then show ?thesis using f unfolding sn by (simp add: feasible_def)
  qed
  moreover have "smf_dp a w' h' (Fin 0) = NaN \<or> smf_dp a w' h' (Fin 0) = PInf"
    unfolding smf_dp_def by (rule dp_zero_flow)
  ultimately show ?thesis by blast
qed

text \<open>Witness for C5: the slot at the target 1029.55, which gets the flow 5.0000005.\<close>

theorem solveMaxFlow_returns_feasible_witness:
  "solveMaxFlow freezing (Fin 1) (Fin 1000000) (Fin 1029.55) = Some (Fin (10000001 / 2000000))
   \<and> truthy (Fin (10000001 / 2000000))
   \<and> mToMm (mmToM (safeNum (Fin 1) (Fin 0))) = Fin 1
   \<and> mToMm (mmToM (safeNum (Fin 1000000) (Fin 0))) = Fin 1000000
   \<and> isFinite (smf_dp freezing (Fin 1) (Fin 1000000) (Fin (10000001 / 2000000)))
   \<and> nle (smf_dp freezing (Fin 1) (Fin 1000000) (Fin (10000001 / 2000000))) (Fin 1029.55)
   \<and> (smf_dp freezing (Fin 1) (Fin 1000000) (Fin 0) = NaN
      \<or> smf_dp freezing (Fin 1) (Fin 1000000) (Fin 0) = PInf)"
proof -
  have g: "mToMm (mmToM (safeNum (Fin 1) (Fin 0))) = Fin 1"
    "mToMm (mmToM (safeNum (Fin 1000000) (Fin 0))) = Fin 1000000"
    by (simp_all add: safeNum_def slot_geo)
  have t: "truthy (Fin (10000001 / 2000000))" by simp
  show ?thesis
    using solveMaxFlow_returns_feasible[of freezing "Fin 1" "Fin 1000000" "Fin 1029.55"
        "Fin (10000001 / 2000000)" "Fin 1" "Fin 1000000"] slot_high_target t
    unfolding g by blast
qed

section \<open>The missing-dimension bisection\<close>

lemma smd_step:
  assumes "nmul (Fin 0.5) (nadd lo hi) = m"
  shows "smd_loop a fw fixed_m Q target (Suc n) lo hi best =
     (let dp = smf_dp a (mToMm (if fw then fixed_m else m)) (mToMm (if fw then m else fixed_m)) Q
      in if \<not> isFinite dp then best
         else if within_tol dp target then Some (m, dp)
         else if ngt dp target then smd_loop a fw fixed_m Q target n m hi (Some (m, dp))
         else smd_loop a fw fixed_m Q target n lo m (Some (m, dp)))"
  using assms by (simp add: Let_def smf_dp_def)

lemma mid_val5:
  "\<bar>l\<bar> \<le> 5 \<Longrightarrow> \<bar>u\<bar> \<le> 5 \<Longrightarrow> nmul (Fin 0.5) (nadd (Fin l) (Fin u)) = Fin ((l + u) / 2)"
  by (simp add: rnd_small)

text \<open>The midpoint kept in \<^verbatim>\<open>best\<close> lies in the search interval.\<close>

lemma smd_loop_range:
  assumes "1 / 10000 \<le> l" "l \<le> u" "u \<le> 5"
    and "best = None \<or> (\<exists>m d. best = Some (Fin m, d) \<and> 1 / 10000 \<le> m \<and> m \<le> 5)"
  shows "smd_loop a fw fixed_m Q target n (Fin l) (Fin u) best = None
       \<or> (\<exists>m d. smd_loop a fw fixed_m Q target n (Fin l) (Fin u) best = Some (Fin m, d)
                \<and> 1 / 10000 \<le> m \<and> m \<le> 5)"
  using assms
proof (induction n arbitrary: l u best)
  case 0
  then show ?case by auto
next
  case (Suc n)
  let ?m = "(l + u) / 2"
  have mid: "nmul (Fin 0.5) (nadd (Fin l) (Fin u)) = Fin ?m"
    using Suc.prems by (intro mid_val5) auto
  have mb: "1 / 10000 \<le> ?m" "l \<le> ?m" "?m \<le> u" "?m \<le> 5"
    using Suc.prems by auto
  let ?dp = "smf_dp a (mToMm (if fw then fixed_m else Fin ?m))
               (mToMm (if fw then Fin ?m else fixed_m)) Q"
  note step = smd_step[OF mid, of a fw fixed_m Q target n best]
  have b': "Some (Fin ?m, ?dp) = None \<or>
      (\<exists>m d. Some (Fin ?m, ?dp) = Some (Fin m, d) \<and> 1 / 10000 \<le> m \<and> m \<le> 5)"
    using mb by blast
  show ?case
  proof (cases "isFinite ?dp")
    case False
    then have eq: "smd_loop a fw fixed_m Q target (Suc n) (Fin l) (Fin u) best = best"
      unfolding step Let_def by simp
    show ?thesis unfolding eq using Suc.prems(4) by blast
  next
    case fin: True
    show ?thesis
    proof (cases "within_tol ?dp target")
      case True
      then have eq: "smd_loop a fw fixed_m Q target (Suc n) (Fin l) (Fin u) best
          = Some (Fin ?m, ?dp)"
        using fin unfolding step Let_def by simp
      show ?thesis unfolding eq using mb by blast
    next
      case nt: False
      show ?thesis
      proof (cases "ngt ?dp target")
        case True
        then have eq: "smd_loop a fw fixed_m Q target (Suc n) (Fin l) (Fin u) best
            = smd_loop a fw fixed_m Q target n (Fin ?m) (Fin u) (Some (Fin ?m, ?dp))"
          using fin nt unfolding step Let_def by simp
        show ?thesis
          unfolding eq using Suc.IH[OF mb(1) mb(3) Suc.prems(3) b'] by blast
      next
        case False
        then have eq: "smd_loop a fw fixed_m Q target (Suc n) (Fin l) (Fin u) best
            = smd_loop a fw fixed_m Q target n (Fin l) (Fin ?m) (Some (Fin ?m, ?dp))"
          using fin nt unfolding step Let_def by simp
        show ?thesis
          unfolding eq using Suc.IH[OF Suc.prems(1) mb(2) mb(4) b'] by blast
      qed
    qed
  qed
qed

lemma smd_loop_Some: "smd_loop a fw fixed_m Q target n lo hi (Some b) \<noteq> None"
  by (induction n arbitrary: lo hi b) (auto simp: Let_def)

lemma solveMissingDimension_range:
  assumes "solveMissingDimension a fw fixed Q t = Some sol"
  shows "\<exists>c. displayValueMm sol = Fin c \<and> 1 / 10 \<le> c \<and> c \<le> 5000"
proof -
  let ?r = "smd_loop a fw (mmToM (safeNum fixed (Fin 0))) Q (safeNum t (Fin 0)) 60
              (Fin 0.0001) (Fin 5.0) None"
  from smd_loop_range[of "1 / 10000" 5 None a fw "mmToM (safeNum fixed (Fin 0))" Q
      "safeNum t (Fin 0)" 60]
  have "?r = None \<or> (\<exists>m d. ?r = Some (Fin m, d) \<and> 1 / 10000 \<le> m \<and> m \<le> 5)"
    by simp
  moreover have "?r \<noteq> None" and "case ?r of None \<Rightarrow> False
     | Some (mid, dp) \<Rightarrow> sol = \<lparr> displayValueMm = mToMm mid, sol_dp = dp \<rparr>"
    using assms by (auto simp: solveMissingDimension_def Let_def split: if_splits option.splits)
  ultimately obtain m d where m: "?r = Some (Fin m, d)" "1 / 10000 \<le> m" "m \<le> 5"
    and s: "sol = \<lparr> displayValueMm = mToMm (Fin m), sol_dp = d \<rparr>"
    by auto
  have "mToMm (Fin m) = Fin (m * 1000)"
    using m by (simp add: mToMm_def rnd_small)
  then show ?thesis using m s by auto
qed

section \<open>Choice between the two candidates\<close>

lemma pick_both:
  assumes "cd = Fin c" "0 < c"
  shows "apply_pick old (pick (Some cv) (Some cd)) = nmax (safeNum cv (Fin 0)) cd"
proof -
  obtain x where x: "safeNum cv (Fin 0) = Fin x"
    by (cases cv) (auto simp: safeNum_def)
  have "pick (Some cv) (Some cd) = Some (nmax (Fin x) (Fin c))"
    using assms x by (simp add: pick_def Math_max_def List.map_filter_simps safeNum_def nmax_def)
  moreover have "truthy (nmax (Fin x) (Fin c))"
    using assms by (auto simp: nmax_def)
  ultimately show ?thesis using assms x by (simp add: apply_pick_def)
qed

lemma dimFromDp_range:
  assumes "dimFromDp a fw fixed needDp Qv = Some cd"
  shows "\<exists>c. cd = Fin c \<and> 1 / 10 \<le> c \<and> c \<le> 5000"
  using assms solveMissingDimension_range[of a fw fixed Qv needDp]
  by (auto simp: dimFromDp_def split: if_splits option.splits)

lemma fixedDim_result:
  assumes "mode a = FixedDim"
  shows "results (runSolverWithValues a w h fi v d) =
     (let Qv = fd_Qv a w h fi v;
          sd = solved_dims a w h (safeNum v (Fin 0)) (safeNum d (Fin 0)) Qv
      in Some (FixedDimResult (fst sd) (snd sd) Qv
                 (dp_per_m (calcRectNums (fst sd) (snd sd) Qv (safeNum (temperature a) (Fin 20))
                    (safeNum (rh a) (Fin 50)) (material a)))))"
  using assms by (simp add: runSolverWithValues_def fd_Qv_def Let_def split: prod.splits)

text \<open>
  Claim C9, as amended.  In solve-one-dimension mode with exactly one of width and height
  positive, whenever the candidate from the velocity and the candidate from the pressure
  drop both exist, the missing dimension reported in the result is the larger of the two,
  a velocity candidate that is not finite counting as 0; so it is the larger of the two
  candidates whenever the velocity candidate is finite.
\<close>

theorem fixedDim_reports_larger_candidate:
  assumes "mode a = FixedDim"
  shows "(ngt w (Fin 0) \<and> (\<not> truthy h \<or> nle h (Fin 0))
          \<and> dimFromV (safeNum v (Fin 0)) (fd_Qv a w h fi v) w = Some cv
          \<and> dimFromDp a True w (safeNum d (Fin 0)) (fd_Qv a w h fi v) = Some cd
          \<longrightarrow> map_option height_mm (results (runSolverWithValues a w h fi v d))
                = Some (nmax (safeNum cv (Fin 0)) cd)
              \<and> (isFinite cv \<longrightarrow> map_option height_mm (results (runSolverWithValues a w h fi v d))
                                  = Some (nmax cv cd)))
       \<and> (ngt h (Fin 0) \<and> (\<not> truthy w \<or> nle w (Fin 0))
          \<and> dimFromV (safeNum v (Fin 0)) (fd_Qv a w h fi v) h = Some cv
          \<and> dimFromDp a False h (safeNum d (Fin 0)) (fd_Qv a w h fi v) = Some cd
          \<longrightarrow> map_option width_mm (results (runSolverWithValues a w h fi v d))
                = Some (nmax (safeNum cv (Fin 0)) cd)
              \<and> (isFinite cv \<longrightarrow> map_option width_mm (results (runSolverWithValues a w h fi v d))
                                  = Some (nmax cv cd)))"
proof -
  have pk: "apply_pick old (pick (Some cv) (Some cd)) = nmax (safeNum cv (Fin 0)) cd"
    if "dimFromDp a fw fixed needDp Qv = Some cd" for old fw fixed needDp Qv
    using dimFromDp_range[OF that] pick_both[of cd _ old cv] by auto
  have wpos: "\<not> (\<not> truthy w \<or> nle w (Fin 0))" if "ngt w (Fin 0)"
    using that by (cases w) (auto simp: ngt_def)
  show ?thesis
    using pk wpos
    by (auto simp add: fixedDim_result[OF assms] solved_dims_def Let_def safeNum_def)
qed

lemma wide_first_dp:
  "smf_dp wide_duct (Fin 10000000) (Fin (50001 / 20)) (Fin 100)
     = Fin (5722860414714300143 / 65108072994792187500000000)"
  by (simp add: smf_dp_def wide_duct_def office_def safeNum_def calc_defs rnd_small)

lemma wide_solve:
  "solveMissingDimension wide_duct True (Fin 10000000) (Fin 100) (Fin 1) \<noteq> None"
proof -
  have geo: "mmToM (Fin 10000000) = Fin 10000" "mToMm (Fin 10000) = Fin 10000000"
    "mToMm (Fin (50001 / 20000)) = Fin (50001 / 20)"
    by (simp_all add: mmToM_def mToMm_def rnd_small)
  have mid: "nmul (Fin 0.5) (nadd (Fin 0.0001) (Fin 5.0)) = Fin (50001 / 20000)"
    by (simp add: rnd_small)
  have "smd_loop wide_duct True (Fin 10000) (Fin 100) (Fin 1) (Suc 59) (Fin 0.0001) (Fin 5.0) None
      \<noteq> None"
    unfolding smd_step[OF mid] Let_def using smd_loop_Some
    by (simp add: geo wide_first_dp)
  then show ?thesis
    by (auto simp add: solveMissingDimension_def Let_def safeNum_def geo split: option.splits)
qed

lemma wide_Qv: "fd_Qv wide_duct (Fin 10000000) (Fin 0) (Fin 100) v = Fin 100"
  by (simp add: fd_Qv_def wide_duct_def office_def flowInputToM3s_def safeNum_def ngt_def)

lemma wide_dp_candidate:
  "\<exists>c. dimFromDp wide_duct True (Fin 10000000) (Fin 1) (Fin 100) = Some (Fin c)
       \<and> 1 / 10 \<le> c \<and> c \<le> 5000"
proof -
  obtain sol where "solveMissingDimension wide_duct True (Fin 10000000) (Fin 100) (Fin 1) = Some sol"
    using wide_solve by blast
  then have d: "dimFromDp wide_duct True (Fin 10000000) (Fin 1) (Fin 100)
      = Some (displayValueMm sol)"
    by (simp add: dimFromDp_def ngt_def)
  from dimFromDp_range[OF d] show ?thesis unfolding d by simp
qed

lemma ovf_lt: "ovf < 10 ^ 309"
  unfolding ovf_def by simp

lemma wide_v_candidate_inf:
  "dimFromV (Fin (1 / 10 ^ 307)) (Fin 100) (Fin 10000000) = Some PInf"
proof -
  have "ovf \<le> 100 / (1 / 10 ^ 307)"
    using ovf_lt by simp
  then have "ndiv (Fin 100) (Fin (1 / 10 ^ 307)) = PInf"
    by (simp add: rnd_def)
  then show ?thesis
    by (simp add: dimFromV_def ngt_def mmToM_def mToMm_def rnd_small inf_of_sign_def Let_def)
qed

lemma wide_v_candidate_10:
  "dimFromV (Fin 1) (Fin 100) (Fin 10000000) = Some (Fin 10)"
  by (simp add: dimFromV_def ngt_def mmToM_def mToMm_def rnd_small Let_def)

text \<open>
  Counterexample to C9 as stated.  Width 10 km, height missing, flow 100 cubic metres per
  second, velocity \<open>1 / 10 ^ 307\<close>, target 1: the area needed for the velocity
  overflows, so the velocity candidate is \<open>+\<infinity>\<close>; the candidate of the bisection exists and is
  finite.  The larger of the two is \<open>+\<infinity>\<close>, and the reported height is not.
\<close>

theorem fixedDim_infinite_candidate_dropped:
  "dimFromV (safeNum (Fin (1 / 10 ^ 307)) (Fin 0))
       (fd_Qv wide_duct (Fin 10000000) (Fin 0) (Fin 100) (Fin (1 / 10 ^ 307))) (Fin 10000000)
     = Some PInf
   \<and> dimFromDp wide_duct True (Fin 10000000) (safeNum (Fin 1) (Fin 0))
       (fd_Qv wide_duct (Fin 10000000) (Fin 0) (Fin 100) (Fin (1 / 10 ^ 307))) \<noteq> None
   \<and> map_option (nmax PInf) (dimFromDp wide_duct True (Fin 10000000) (safeNum (Fin 1) (Fin 0))
       (fd_Qv wide_duct (Fin 10000000) (Fin 0) (Fin 100) (Fin (1 / 10 ^ 307)))) = Some PInf
   \<and> map_option height_mm (results (runSolverWithValues wide_duct (Fin 10000000) (Fin 0) (Fin 100)
         (Fin (1 / 10 ^ 307)) (Fin 1))) \<noteq> Some PInf"
proof -
  let ?v = "Fin (1 / 10 ^ 307)"
  have m: "mode wide_duct = FixedDim" by (simp add: wide_duct_def office_def)
  have sv: "safeNum ?v (Fin 0) = ?v" "safeNum (Fin 1) (Fin 0) = Fin 1"
    by (simp_all add: safeNum_def)
  obtain c where c: "dimFromDp wide_duct True (Fin 10000000) (Fin 1) (Fin 100) = Some (Fin c)"
    "1 / 10 \<le> c" "c \<le> 5000"
    using wide_dp_candidate by blast
  have v: "dimFromV ?v (Fin 100) (Fin 10000000) = Some PInf"
    by (rule wide_v_candidate_inf)
  have pk: "apply_pick (Fin 0) (pick (Some PInf) (Some (Fin c))) = Fin c"
    using c pick_both[of "Fin c" c "Fin 0" PInf] by (simp add: safeNum_def nmax_def)
  have sd: "solved_dims wide_duct (Fin 10000000) (Fin 0) ?v (Fin 1) (Fin 100)
      = (Fin 10000000, Fin c)"
    unfolding solved_dims_def v c(1) pk by (simp add: ngt_def)
  have "map_option height_mm (results (runSolverWithValues wide_duct (Fin 10000000) (Fin 0)
      (Fin 100) ?v (Fin 1))) = Some (Fin c)"
    unfolding fixedDim_result[OF m] Let_def wide_Qv sv sd by simp
  then show ?thesis
    unfolding wide_Qv sv v c by (auto simp add: nmax_def)
qed

text \<open>Witness for C9: the same duct with the velocity 1, whose candidate is 10 mm.\<close>

theorem fixedDim_reports_larger_candidate_witness:
  "mode wide_duct = FixedDim \<and> ngt (Fin 10000000) (Fin 0) \<and> \<not> truthy (Fin 0)
   \<and> dimFromV (safeNum (Fin 1) (Fin 0))
        (fd_Qv wide_duct (Fin 10000000) (Fin 0) (Fin 100) (Fin 1)) (Fin 10000000) = Some (Fin 10)
   \<and> (\<exists>cd. dimFromDp wide_duct True (Fin 10000000) (safeNum (Fin 1) (Fin 0))
               (fd_Qv wide_duct (Fin 10000000) (Fin 0) (Fin 100) (Fin 1)) = Some cd
          \<and> map_option height_mm (results (runSolverWithValues wide_duct (Fin 10000000) (Fin 0)
               (Fin 100) (Fin 1) (Fin 1))) = Some (nmax (Fin 10) cd))"
proof -
  have m: "mode wide_duct = FixedDim" by (simp add: wide_duct_def office_def)
  have sv: "safeNum (Fin 1) (Fin 0) = Fin 1" "safeNum (Fin 10) (Fin 0) = Fin 10"
    by (simp_all add: safeNum_def)
  obtain c where c: "dimFromDp wide_duct True (Fin 10000000) (Fin 1) (Fin 100) = Some (Fin c)"
    using wide_dp_candidate by blast
  have "map_option height_mm (results (runSolverWithValues wide_duct (Fin 10000000) (Fin 0)
      (Fin 100) (Fin 1) (Fin 1))) = Some (nmax (Fin 10) (Fin c))"
    using fixedDim_reports_larger_candidate[OF m, where w = "Fin 10000000" and h = "Fin 0"
        and v = "Fin 1" and fi = "Fin 100" and d = "Fin 1" and cv = "Fin 10" and cd = "Fin c"]
    unfolding wide_Qv sv by (simp add: wide_v_candidate_10 c ngt_def)
  then show ?thesis
    unfolding wide_Qv sv using m c by (simp add: wide_v_candidate_10 ngt_def)
qed

section \<open>The pressure drop as a real function of the height\<close>

lemma ln3_ge1: "1 \<le> ln (3::real)"
proof -
  have "exp 1 \<le> (3::real)" by (rule exp_le)
  then have "ln (exp 1) \<le> ln (3::real)" by (subst ln_le_cancel_iff) simp_all
  then show ?thesis by simp
qed

lemma chi_deriv_nonneg:
  fixes r s x :: real
  assumes "0 \<le> r" "0 < s" "0 < x" "r + s * x \<le> 1 / 2" "s * x \<le> 3 / 1000"
  shows "0 \<le> - ln (r + s * x) - x * (s / (r + s * x))"
proof -
  let ?A = "r + s * x"
  have "0 < s * x" using assms by simp
  then have A: "0 < ?A" "s * x \<le> ?A" using assms(1) by linarith+
  have q: "x * (s / ?A) = (s * x) / ?A" by simp
  show ?thesis
  proof (cases "?A \<le> 1 / 3")
    case True
    have "ln ?A \<le> ln (1 / 3)" using True A by (subst ln_le_cancel_iff) simp_all
    also have "\<dots> = - ln 3" by (simp add: ln_div)
    finally have "1 \<le> - ln ?A" using ln3_ge1 by linarith
    moreover have "(s * x) / ?A \<le> 1" using A by (simp add: divide_le_eq)
    ultimately show ?thesis unfolding q by linarith
  next
    case False
    then have big: "1 / 3 < ?A" by simp
    have "ln ?A \<le> ?A - 1" using A by (intro ln_le_minus_one) simp
    then have "1 / 2 \<le> - ln ?A" using assms(4) by linarith
    moreover have "(s * x) / ?A \<le> 1 / 2"
    proof -
      have "(s * x) / ?A \<le> (3 / 1000) / (1 / 3)"
        using assms(5) big A by (intro frac_le) auto
      also have "\<dots> \<le> (1 / 2 :: real)" by simp
      finally show ?thesis .
    qed
    ultimately show ?thesis unfolding q by linarith
  qed
qed

lemma chi_mono:
  fixes r s u1 u2 :: real
  assumes "0 \<le> r" "0 < s" "0 < u1" "u1 \<le> u2" "r + s * u2 \<le> 1 / 2" "s * u2 \<le> 3 / 1000"
  shows "chi r s u1 \<le> chi r s u2"
proof (rule DERIV_nonneg_imp_nondecreasing[OF assms(4)])
  fix x assume x: "u1 \<le> x" "x \<le> u2"
  then have xp: "0 < x" using assms(3) by linarith
  have sx: "s * x \<le> s * u2" using x assms(2) by simp
  have "0 < s * x" using assms(2) xp by simp
  then have A: "0 < r + s * x" using assms(1) by linarith
  have d: "(chi r s has_real_derivative (- ln (r + s * x) - x * (s / (r + s * x)))) (at x)"
    unfolding chi_def using A
    by (auto intro!: derivative_eq_intros simp: field_simps)
  have "0 \<le> - ln (r + s * x) - x * (s / (r + s * x))"
  proof (rule chi_deriv_nonneg[OF assms(1,2) xp])
    show "r + s * x \<le> 1 / 2" using sx assms(5) by linarith
    show "s * x \<le> 3 / 1000" using sx assms(6) by linarith
  qed
  then show "\<exists>y. (chi r s has_real_derivative y) (at x) \<and> 0 \<le> y"
    using d by blast
qed

lemma Dh_ge:
  fixes a x :: real
  assumes "1 / 10000 \<le> a" "1 / 10000 \<le> x"
  shows "1 / 10000 \<le> 4 * (a * x) / (2 * (a + x))"
proof -
  have p: "0 < a" "0 < x" using assms by linarith+
  have "a * x \<ge> 1 / 10000 * x" using assms p by (intro mult_right_mono) auto
  moreover have "a * x \<ge> a * (1 / 10000)" using assms p by (intro mult_left_mono) auto
  ultimately have "2 * (a + x) / 10000 \<le> 4 * (a * x)" by simp
  then show ?thesis using p by (simp add: pos_le_divide_eq)
qed

lemma dpR_regimes:
  assumes "0 < \<rho>" "0 < \<mu>" "0 < q" "0 < \<epsilon>" "1 / 10 \<le> w" "1 / 10 \<le> h"
  shows "dpR \<rho> \<mu> \<epsilon> w h q =
     (if ReR \<rho> \<mu> q (w / 1000) (h / 1000) < 2300 then lamR \<mu> q (w / 1000) (h / 1000)
      else turbR \<rho> q \<epsilon> (3.45 * \<mu> / (\<rho> * q)) (w / 1000) (h / 1000))"
proof -
  define a where "a = w / 1000"
  define x where "x = h / 1000"
  have ax: "1 / 10000 \<le> a" "1 / 10000 \<le> x" "0 < a" "0 < x"
    using assms by (simp_all add: a_def x_def)
  define Dh where "Dh = 4 * (a * x) / (2 * (a + x))"
  have DhL: "1 / 10000 \<le> Dh" unfolding Dh_def by (rule Dh_ge[OF ax(1,2)])
  have Dh2: "Dh = 2 * a * x / (a + x)" unfolding Dh_def using ax by (simp add: field_simps)
  have mx: "max Dh (1 / 1000000000) = Dh" using DhL by simp
  have V: "\<bar>q / (a * x)\<bar> = q / (a * x)" using assms ax by simp
  have Rn: "\<rho> * \<bar>q / (a * x)\<bar> * Dh / \<mu> = ReR \<rho> \<mu> q a x"
    unfolding V Dh2 ReR_def using assms ax by (simp add: field_simps)
  have RnP: "0 < ReR \<rho> \<mu> q a x" unfolding ReR_def using assms ax by simp
  have lam: "64 / ReR \<rho> \<mu> q a x * (\<rho> * (q / (a * x)) * (q / (a * x))) / (2 * Dh) = lamR \<mu> q a x"
    unfolding Dh2 ReR_def lamR_def using assms ax
    by (simp add: field_simps power2_eq_square power3_eq_cube)
  have rr: "\<epsilon> / Dh / 3.7 = \<epsilon> * (a + x) / (7.4 * a * x)"
    unfolding Dh2 using ax by (simp add: field_simps)
  have s: "6.9 / ReR \<rho> \<mu> q a x = 3.45 * \<mu> / (\<rho> * q) * (a + x)"
    unfolding ReR_def using assms ax by (simp add: field_simps)
  have g: "(\<rho> * (q / (a * x)) * (q / (a * x))) / (2 * Dh)
      = \<rho> * q ^ 2 * (a + x) / (4 * a ^ 3 * x ^ 3)"
    unfolding Dh2 using ax by (simp add: field_simps power2_eq_square power3_eq_cube)
  have sq: "1 / (- 1.8 * L) ^ 2 * Y / Z = Y / Z / (1.8 * L) ^ 2" for L Y Z :: real
    by (simp add: power2_eq_square mult_ac)
  have turb: "1 / (- 1.8 * log 10 ((\<epsilon> / Dh / 3.7) powr 1.11 + 6.9 / ReR \<rho> \<mu> q a x)) ^ 2
        * (\<rho> * (q / (a * x)) * (q / (a * x))) / (2 * Dh)
      = turbR \<rho> q \<epsilon> (3.45 * \<mu> / (\<rho> * q)) a x"
    unfolding rr s turbR_def AhaR_def sq g by simp
  show ?thesis
    unfolding dpR_def Let_def a_def[symmetric] x_def[symmetric] Dh_def[symmetric] mx Rn
    using lam turb by simp
qed

lemma rough_base_le:
  fixes \<epsilon> a x :: real
  assumes "0 < \<epsilon>" "\<epsilon> \<le> 15 / 100000" "1 / 10000 \<le> a" "1 / 10000 \<le> x"
  shows "\<epsilon> * (a + x) / (7.4 * a * x) \<le> 30 / 74"
proof -
  have p: "0 < a" "0 < x" using assms by linarith+
  have "a * x \<ge> 1 / 10000 * x" using assms p by (intro mult_right_mono) auto
  moreover have "a * x \<ge> a * (1 / 10000)" using assms p by (intro mult_left_mono) auto
  ultimately have "a + x \<le> 20000 * (a * x)" by simp
  then have "\<epsilon> * (a + x) \<le> 15 / 100000 * (20000 * (a * x))"
    using assms p by (intro mult_mono) auto
  then show ?thesis using p by (simp add: field_simps)
qed

lemma roughR_bounds:
  assumes "0 < \<epsilon>" "\<epsilon> \<le> 15 / 100000" "1 / 10000 \<le> a" "1 / 10000 \<le> x"
  shows "0 < roughR \<epsilon> a x" "roughR \<epsilon> a x \<le> 30 / 74"
proof -
  let ?b = "\<epsilon> * (a + x) / (7.4 * a * x)"
  have p: "0 < a" "0 < x" using assms by linarith+
  have b0: "0 < ?b" using assms p by simp
  have b1: "?b \<le> 30 / 74" by (rule rough_base_le[OF assms])
  have nz: "?b \<noteq> 0" using b0 by linarith
  show "0 < roughR \<epsilon> a x" unfolding roughR_def by (subst powr_gt_zero) (rule nz)
  have "?b powr 1.11 \<le> ?b powr 1"
    using b0 b1 by (intro powr_mono') auto
  then show "roughR \<epsilon> a x \<le> 30 / 74" unfolding roughR_def using b0 b1 by simp
qed

lemma roughR_antimono:
  assumes "0 < \<epsilon>" "0 < a" "0 < x1" "x1 \<le> x2"
  shows "roughR \<epsilon> a x2 \<le> roughR \<epsilon> a x1"
proof -
  have x2: "0 < x2" using assms by linarith
  have "(a + x2) * x1 \<le> (a + x1) * x2" using assms by (simp add: algebra_simps)
  then have "(a + x2) / x2 \<le> (a + x1) / x1" using assms x2 by (simp add: field_simps)
  then have "\<epsilon> / (7.4 * a) * ((a + x2) / x2) \<le> \<epsilon> / (7.4 * a) * ((a + x1) / x1)"
    using assms by (intro mult_left_mono) auto
  then have "\<epsilon> * (a + x2) / (7.4 * a * x2) \<le> \<epsilon> * (a + x1) / (7.4 * a * x1)"
    by simp
  moreover have "0 \<le> \<epsilon> * (a + x2) / (7.4 * a * x2)" using assms x2 by simp
  ultimately show ?thesis unfolding roughR_def by (intro powr_mono2) auto
qed

lemma AhaR_rough: "AhaR \<epsilon> s a x = roughR \<epsilon> a x + s * (a + x)"
  by (simp add: AhaR_def roughR_def)

lemma psi_mono:
  assumes "0 < \<epsilon>" "\<epsilon> \<le> 15 / 100000" "1 / 10000 \<le> a" "1 / 10000 \<le> x1" "x1 \<le> x2"
    and "0 < s" "s * (a + x2) \<le> 3 / 1000"
  shows "psi \<epsilon> s a x1 \<le> psi \<epsilon> s a x2" "0 < psi \<epsilon> s a x1"
proof -
  have p: "0 < a" "0 < x1" "0 < x2" "1 / 10000 \<le> x2" using assms by linarith+
  let ?r1 = "roughR \<epsilon> a x1" and ?r2 = "roughR \<epsilon> a x2"
  have r1: "0 < ?r1" "?r1 \<le> 30 / 74" by (rule roughR_bounds[OF assms(1-4)])+
  have r2: "0 < ?r2" "?r2 \<le> ?r1"
    using roughR_bounds(1)[OF assms(1-3) p(4)] roughR_antimono[OF assms(1) p(1,2) assms(5)]
    by auto
  have su1: "s * (a + x1) \<le> s * (a + x2)" using assms by simp
  have "chi ?r1 s (a + x1) \<le> chi ?r1 s (a + x2)"
  proof (rule chi_mono)
    show "0 \<le> ?r1" using r1 by simp
    show "0 < s" by fact
    show "0 < a + x1" using p by simp
    show "a + x1 \<le> a + x2" using assms by simp
    show "?r1 + s * (a + x2) \<le> 1 / 2" using r1 assms(7) by simp
    show "s * (a + x2) \<le> 3 / 1000" by fact
  qed
  moreover have "chi ?r1 s (a + x2) \<le> psi \<epsilon> s a x2"
  proof -
    have "0 < ?r2 + s * (a + x2)" using r2 assms p by (simp add: add_pos_pos)
    then have "ln (?r2 + s * (a + x2)) \<le> ln (?r1 + s * (a + x2))"
      using r2 by (subst ln_le_cancel_iff) auto
    then have "(a + x2) * (- ln (?r1 + s * (a + x2))) \<le> (a + x2) * (- ln (?r2 + s * (a + x2)))"
      using p by (intro mult_left_mono) auto
    then show ?thesis by (simp add: chi_def psi_def AhaR_rough)
  qed
  moreover have "chi ?r1 s (a + x1) = psi \<epsilon> s a x1"
    by (simp add: chi_def psi_def AhaR_rough)
  ultimately show "psi \<epsilon> s a x1 \<le> psi \<epsilon> s a x2" by simp
  have "0 < ?r1 + s * (a + x1)" using r1 assms p by (simp add: add_pos_pos)
  moreover have "?r1 + s * (a + x1) < 1" using r1 su1 assms(7) by simp
  ultimately have "ln (?r1 + s * (a + x1)) < 0" by simp
  then have "0 < (a + x1) * (- ln (?r1 + s * (a + x1)))"
    using p by (intro mult_pos_pos) auto
  then show "0 < psi \<epsilon> s a x1" by (simp add: psi_def AhaR_rough)
qed

lemma turbR_psi:
  assumes "0 < a" "0 < x"
  shows "turbR \<rho> q \<epsilon> s a x =
     \<rho> * q ^ 2 / (4 * a ^ 3) * (ln 10 / 1.8) ^ 2 * (((a + x) / x) ^ 3 / (psi \<epsilon> s a x) ^ 2)"
proof -
  have l: "0 < ln (10::real)" by simp
  have "(1.8 * log 10 (AhaR \<epsilon> s a x)) ^ 2 * (a + x) ^ 2 = (1.8 / ln 10) ^ 2 * (psi \<epsilon> s a x) ^ 2"
    unfolding psi_def log_def using l by (simp add: power2_eq_square field_simps)
  moreover have "a + x \<noteq> 0" using assms by simp
  ultimately have e: "(1.8 * log 10 (AhaR \<epsilon> s a x)) ^ 2
      = (1.8 / ln 10) ^ 2 * (psi \<epsilon> s a x) ^ 2 / (a + x) ^ 2"
    by (simp add: field_simps)
  show ?thesis
    unfolding turbR_def e using assms l
    by (simp add: field_simps power2_eq_square power3_eq_cube)
qed

lemma turbR_antimono:
  assumes "0 < \<rho>" "0 < q" "0 < \<epsilon>" "\<epsilon> \<le> 15 / 100000" "1 / 10000 \<le> a" "1 / 10000 \<le> x1"
    "x1 \<le> x2" "0 < s" "s * (a + x2) \<le> 3 / 1000"
  shows "turbR \<rho> q \<epsilon> s a x2 \<le> turbR \<rho> q \<epsilon> s a x1"
proof -
  have p: "0 < a" "0 < x1" "0 < x2" using assms by linarith+
  have ps: "psi \<epsilon> s a x1 \<le> psi \<epsilon> s a x2" "0 < psi \<epsilon> s a x1"
    by (rule psi_mono[OF assms(3-9)])+
  have "(a + x2) * x1 \<le> (a + x1) * x2" using assms p by (simp add: algebra_simps)
  then have "(a + x2) / x2 \<le> (a + x1) / x1" using p by (simp add: field_simps)
  then have c: "((a + x2) / x2) ^ 3 \<le> ((a + x1) / x1) ^ 3"
    using p by (intro power_mono) auto
  have d: "(psi \<epsilon> s a x1) ^ 2 \<le> (psi \<epsilon> s a x2) ^ 2" "0 < (psi \<epsilon> s a x1) ^ 2"
    using ps by (auto intro: power_mono)
  have "((a + x2) / x2) ^ 3 / (psi \<epsilon> s a x2) ^ 2 \<le> ((a + x1) / x1) ^ 3 / (psi \<epsilon> s a x1) ^ 2"
    using c d p by (intro frac_le) auto
  then have "\<rho> * q ^ 2 / (4 * a ^ 3) * (ln 10 / 1.8) ^ 2 * (((a + x2) / x2) ^ 3 / (psi \<epsilon> s a x2) ^ 2)
      \<le> \<rho> * q ^ 2 / (4 * a ^ 3) * (ln 10 / 1.8) ^ 2 * (((a + x1) / x1) ^ 3 / (psi \<epsilon> s a x1) ^ 2)"
    using assms p by (intro mult_left_mono) auto
  then show ?thesis
    unfolding turbR_psi[OF p(1,2)] turbR_psi[OF p(1,3)] .
qed

section \<open>Orders of magnitude and the absence of overflow\<close>

lemma mag_pos: "mag m n x \<Longrightarrow> 0 < x"
proof -
  assume "mag m n x"
  moreover have "(0::real) < 1 / 10 ^ m" by simp
  ultimately show ?thesis unfolding mag_def by linarith
qed

lemma mag_mult: "mag a b x \<Longrightarrow> mag c d y \<Longrightarrow> mag (a + c) (b + d) (x * y)"
proof -
  assume x: "mag a b x" and y: "mag c d y"
  have p: "0 < x" "0 < y" using x y by (auto dest: mag_pos)
  have "1 / 10 ^ a * (1 / 10 ^ c) \<le> x * y"
    using x y p unfolding mag_def by (intro mult_mono) auto
  moreover have "x * y \<le> 10 ^ b * 10 ^ d"
    using x y p unfolding mag_def by (intro mult_mono) auto
  ultimately show ?thesis by (simp add: mag_def power_add)
qed

lemma mag_div: "mag a b x \<Longrightarrow> mag c d y \<Longrightarrow> mag (a + d) (b + c) (x / y)"
proof -
  assume x: "mag a b x" and y: "mag c d y"
  have p: "0 < x" "0 < y" using x y by (auto dest: mag_pos)
  have "(1 / 10 ^ a) / 10 ^ d \<le> x / y"
    using x y p unfolding mag_def by (intro frac_le) auto
  moreover have "x / y \<le> 10 ^ b / (1 / 10 ^ c)"
    using x y p unfolding mag_def by (intro frac_le) auto
  ultimately show ?thesis by (simp add: mag_def power_add)
qed

lemma mag_add: "mag a b x \<Longrightarrow> mag c d y \<Longrightarrow> mag a (Suc (max b d)) (x + y)"
proof -
  assume x: "mag a b x" and y: "mag c d y"
  have p: "0 < x" "0 < y" using x y by (auto dest: mag_pos)
  have "x \<le> 10 ^ max b d" "y \<le> 10 ^ max b d"
    using x y unfolding mag_def by (auto intro: order_trans[OF _ power_increasing])
  moreover have "(0::real) \<le> 10 ^ max b d" by simp
  ultimately have "x + y \<le> 10 * 10 ^ max b d" by linarith
  then show ?thesis using x p unfolding mag_def by simp
qed

lemma mag_weaken: "mag a b x \<Longrightarrow> a \<le> a' \<Longrightarrow> b \<le> b' \<Longrightarrow> mag a' b' x"
proof -
  assume x: "mag a b x" and le: "a \<le> a'" "b \<le> b'"
  have "(10::real) ^ a \<le> 10 ^ a'" "(10::real) ^ b \<le> 10 ^ b'"
    using le by (auto intro: power_increasing)
  moreover have "1 / (10::real) ^ a' \<le> 1 / 10 ^ a"
    using le by (intro divide_left_mono power_increasing) auto
  ultimately show ?thesis using x unfolding mag_def by linarith
qed

lemma mag_rnd: "mag a b x \<Longrightarrow> b \<le> 300 \<Longrightarrow> rnd x = Fin x"
proof -
  assume x: "mag a b x" and b: "b \<le> 300"
  have "(10::real) ^ b \<le> 10 ^ 300" using b by (intro power_increasing) auto
  then have "\<bar>x\<bar> < ovf" using x mag_pos[OF x] ovf_gt unfolding mag_def by linarith
  then show ?thesis by (rule rnd_Fin)
qed

lemma nmul_mag:
  "mag a b x \<Longrightarrow> mag c d y \<Longrightarrow> b + d \<le> 300 \<Longrightarrow> nmul (Fin x) (Fin y) = Fin (x * y)"
  using mag_rnd[OF mag_mult] by simp

lemma ndiv_mag:
  "mag a b x \<Longrightarrow> mag c d y \<Longrightarrow> b + c \<le> 300 \<Longrightarrow> ndiv (Fin x) (Fin y) = Fin (x / y)"
  using mag_rnd[OF mag_div] mag_pos[of c d y] by auto

lemma nadd_mag:
  "mag a b x \<Longrightarrow> mag c d y \<Longrightarrow> max b d < 300 \<Longrightarrow> nadd (Fin x) (Fin y) = Fin (x + y)"
  using mag_rnd[OF mag_add] by simp

lemma mag_I: "1 / 10 ^ m \<le> x \<Longrightarrow> x \<le> 10 ^ n \<Longrightarrow> mag m n x"
  by (simp add: mag_def)

lemma log10_ge:
  assumes "1 / 10 ^ n \<le> x"
  shows "- real n \<le> log 10 x"
proof -
  have x: "0 < x"
  proof -
    have "(0::real) < 1 / 10 ^ n" by simp
    then show ?thesis using assms by linarith
  qed
  have "log 10 (1 / 10 ^ n) \<le> log 10 x"
    using assms x by (subst log_le_cancel_iff) auto
  moreover have "log 10 (1 / 10 ^ n) = - real n"
    by (simp add: log_divide log_nat_power)
  ultimately show ?thesis by simp
qed

lemma log10_half: "log 10 (1 / 2) \<le> - 1 / 4"
proof -
  have "(1 / 2 :: real) ^ 4 = 1 / 16" by (simp add: power_divide)
  then have "(1 / 2 :: real) powr 4 \<le> 10 powr (- 1)" by (simp add: powr_minus_divide)
  then have "log 10 ((1 / 2) powr 4) \<le> log 10 (10 powr (- 1))"
    by (subst log_le_cancel_iff) auto
  then have "4 * log 10 (1 / 2) \<le> - 1"
    by (simp only: log_powr) simp
  then show ?thesis by simp
qed

text \<open>The friction factor on finite arguments in the ordinary range.\<close>

lemma haaland_real:
  assumes R: "mag 40 40 R" and rr: "0 < rr" "rr / 3.7 \<le> 30 / 74"
  shows "haalandFrictionFactor (Fin R) (Fin rr) =
     Fin (if R < 2300 then 64 / R
          else 1 / (- 1.8 * log 10 ((rr / 3.7) powr 1.11 + 6.9 / R)) ^ 2)
    \<and> mag 4 42 (if R < 2300 then 64 / R
          else 1 / (- 1.8 * log 10 ((rr / 3.7) powr 1.11 + 6.9 / R)) ^ 2)"
proof (cases "R < 2300")
  case True
  have "ndiv (Fin 64) (Fin R) = Fin (64 / R)"
    by (rule ndiv_mag[OF _ R, of 0 2]) (simp_all add: mag_def)
  moreover have "mag 4 42 (64 / R)"
  proof -
    have "mag 40 42 (64 / R)"
      using mag_div[OF _ R, of 0 2 64] by (simp add: mag_def)
    moreover have "1 / 10 ^ 4 \<le> 64 / R"
    proof -
      have "64 / 2300 \<le> 64 / R" using True mag_pos[OF R] by (intro divide_left_mono) auto
      then show ?thesis by simp
    qed
    ultimately show ?thesis by (simp add: mag_def)
  qed
  ultimately show ?thesis
    using True mag_pos[OF R] by (simp add: haalandFrictionFactor_def)
next
  case False
  then have R2: "2300 \<le> R" by simp
  have Rp: "0 < R" by (rule mag_pos[OF R])
  define b where "b = rr / 3.7"
  define bp where "bp = b powr 1.11"
  define s where "s = 6.9 / R"
  define A where "A = bp + s"
  define L where "L = log 10 A"
  define y where "y = - 1.8 * L"
  define ysq where "ysq = y ^ 2"
  have b: "0 < b" "b \<le> 30 / 74" using rr by (simp_all add: b_def)
  have bp: "0 < bp" "bp \<le> 30 / 74"
  proof -
    show "0 < bp" unfolding bp_def using b by simp
    have "b powr 1.11 \<le> b powr 1" using b by (intro powr_mono') auto
    then show "bp \<le> 30 / 74" unfolding bp_def using b by simp
  qed
  have s: "0 < s" "s \<le> 3 / 1000" "1 / 10 ^ 40 \<le> s"
  proof -
    show "0 < s" unfolding s_def using Rp by simp
    have "6.9 / R \<le> 6.9 / 2300" using R2 by (intro divide_left_mono) auto
    then show "s \<le> 3 / 1000" unfolding s_def by simp
    have "R \<le> 10 ^ 40" using R by (simp add: mag_def)
    then have "6.9 / 10 ^ 40 \<le> 6.9 / R" using Rp by (intro divide_left_mono) auto
    moreover have "(1::real) / 10 ^ 40 \<le> 6.9 / 10 ^ 40" by simp
    ultimately show "1 / 10 ^ 40 \<le> s" unfolding s_def by linarith
  qed
  have A: "1 / 10 ^ 40 \<le> A" "A \<le> 1 / 2" "0 < A"
    unfolding A_def using bp s by linarith+
  have L: "- 40 \<le> L" "L \<le> - 1 / 4"
  proof -
    show "- 40 \<le> L" unfolding L_def using log10_ge[OF A(1)] by simp
    have "L \<le> log 10 (1 / 2)" unfolding L_def using A by (subst log_le_cancel_iff) auto
    then show "L \<le> - 1 / 4" using log10_half by linarith
  qed
  have y: "9 / 20 \<le> y" "y \<le> 72" "0 < y" unfolding y_def using L by linarith+
  have ysq: "81 / 400 \<le> ysq" "ysq \<le> 5184" "0 < ysq"
  proof -
    have "(9 / 20) ^ 2 \<le> y ^ 2" using y by (intro power_mono) auto
    then show "81 / 400 \<le> ysq" unfolding ysq_def by (simp add: power2_eq_square)
    then show "0 < ysq" by linarith
    have "y ^ 2 \<le> 72 ^ 2" using y by (intro power_mono) auto
    then show "ysq \<le> 5184" unfolding ysq_def by simp
  qed
  have f: "0 \<le> 1 / ysq" "1 / ysq \<le> 400 / 81"
  proof -
    show "0 \<le> 1 / ysq" using ysq by simp
    have "1 / ysq \<le> 1 / (81 / 400)" using ysq by (intro divide_left_mono) auto
    then show "1 / ysq \<le> 400 / 81" by simp
  qed
  have sm: "rnd t = Fin t" if "\<bar>t\<bar> \<le> 10000" for t
    using that by (intro rnd_small) linarith
  have e1: "ndiv (Fin rr) (Fin 3.7) = Fin b"
    using sm[of b] b by (simp add: b_def)
  have e2: "npow (Fin b) 1.11 = Fin bp"
    using sm[of bp] bp b by (simp add: bp_def)
  have e3: "ndiv (Fin 6.9) (Fin R) = Fin s"
    using sm[of s] s Rp by (simp add: s_def)
  have e4: "nadd (Fin bp) (Fin s) = Fin A"
    using sm[of A] A by (simp add: A_def)
  have e5: "nlog10 (Fin A) = Fin L" using A by (simp add: L_def)
  have e6: "nmul (Fin (- 1.8)) (Fin L) = Fin y"
    using sm[of y] y by (simp add: y_def)
  have e7: "npow (Fin y) 2 = Fin ysq"
  proof -
    have "y powr 2 = y ^ 2" using y by (simp add: powr_numeral)
    then show ?thesis using sm[of ysq] ysq y by (simp add: ysq_def)
  qed
  have e8: "ndiv (Fin 1) (Fin ysq) = Fin (1 / ysq)"
    using sm[of "1 / ysq"] f ysq by simp
  have "haalandFrictionFactor (Fin R) (Fin rr) = Fin (1 / ysq)"
    unfolding haalandFrictionFactor_def Let_def e1 e2 e3 e4 e5
    using False Rp e6 e7 e8 by simp
  moreover have "mag 4 42 (1 / ysq)"
  proof -
    have "1 / 5184 \<le> 1 / ysq" using ysq by (intro divide_left_mono) auto
    then have "1 / 10 ^ 4 \<le> 1 / ysq" by simp
    moreover have "1 / ysq \<le> 10 ^ 42" using f by simp
    ultimately show ?thesis by (simp add: mag_def)
  qed
  ultimately show ?thesis
    using False by (simp add: ysq_def y_def L_def A_def s_def bp_def b_def)
qed

lemma roughness_values:
  "(case ROUGHNESS m of Some e \<Rightarrow> e | None \<Rightarrow> Fin 0.00015)
     \<in> {Fin 0.00015, Fin 0.000045, Fin 0.0000018, Fin 0.0000005}"
  by (simp add: ROUGHNESS_def)

lemma roughness_range:
  "\<exists>e. (case ROUGHNESS m of Some e \<Rightarrow> e | None \<Rightarrow> Fin 0.00015) = Fin e \<and> 0 < e \<and> e \<le> 15 / 100000"
  using roughness_values[of m] by auto

lemma calc_dp_real:
  assumes rho: "moistAirDensity (Fin 101325) T RH = Fin \<rho>"
    and mu: "dynamicViscosityAir T = Fin \<mu>"
    and eps: "(case ROUGHNESS m of Some e \<Rightarrow> e | None \<Rightarrow> Fin 0.00015) = Fin \<epsilon>"
    and b\<rho>: "1 / 10 \<le> \<rho>" "\<rho> \<le> 10" and b\<mu>: "1 / 10 ^ 6 \<le> \<mu>" "\<mu> \<le> 1"
    and b\<epsilon>: "0 < \<epsilon>" "\<epsilon> \<le> 15 / 100000"
    and bw: "1 / 10 \<le> w" "w \<le> 10 ^ 6" and bh: "1 / 10 \<le> h" "h \<le> 10 ^ 6"
    and bq: "1 / 10 ^ 6 \<le> q" "q \<le> 10 ^ 3"
  shows "dp_per_m (calcRectNums (Fin w) (Fin h) (Fin q) T RH m) = Fin (dpR \<rho> \<mu> \<epsilon> w h q)"
proof -
  define wm where "wm = w / 1000"
  define hm where "hm = h / 1000"
  define A where "A = wm * hm"
  define P where "P = 2 * (wm + hm)"
  define Dh where "Dh = 4 * A / P"
  define V where "V = q / A"
  define R where "R = \<rho> * \<bar>V\<bar> * Dh / \<mu>"
  define rr where "rr = \<epsilon> / max Dh (1 / 1000000000)"
  define f where "f = (if R < 2300 then 64 / R
               else 1 / (- 1.8 * log 10 ((rr / 3.7) powr 1.11 + 6.9 / R)) ^ 2)"
  have m\<rho>: "mag 1 1 \<rho>" and m\<mu>: "mag 6 0 \<mu>" and mw: "mag 1 6 w" and mh: "mag 1 6 h"
    and mq: "mag 6 3 q"
    using b\<rho> b\<mu> bw bh bq by (simp_all add: mag_def)
  have k: "mag 0 3 1000" "mag 0 1 2" "mag 0 1 4" by (simp_all add: mag_def)
  have mwm: "mag 4 6 wm" unfolding wm_def using mag_div[OF mw k(1)] by simp
  have mhm: "mag 4 6 hm" unfolding hm_def using mag_div[OF mh k(1)] by simp
  have mA: "mag 8 12 A" unfolding A_def using mag_mult[OF mwm mhm] by simp
  have ms: "mag 4 7 (wm + hm)" using mag_add[OF mwm mhm] by simp
  have mP: "mag 4 8 P" unfolding P_def using mag_mult[OF k(2) ms] by simp
  have m4A: "mag 8 13 (4 * A)" using mag_mult[OF k(3) mA] by simp
  have mDh: "mag 16 17 Dh" unfolding Dh_def using mag_div[OF m4A mP] by simp
  have mV: "mag 18 11 V" unfolding V_def using mag_div[OF mq mA] by simp
  have Vabs: "\<bar>V\<bar> = V" using mag_pos[OF mV] by simp
  have m\<rho>V: "mag 19 12 (\<rho> * V)" using mag_mult[OF m\<rho> mV] by simp
  have m\<rho>VD: "mag 35 29 (\<rho> * V * Dh)" using mag_mult[OF m\<rho>V mDh] by simp
  have mR: "mag 35 35 R" unfolding R_def Vabs using mag_div[OF m\<rho>VD m\<mu>] by simp
  have DhL: "1 / 10000 \<le> Dh"
    unfolding Dh_def A_def P_def
    by (rule Dh_ge) (use bw bh in \<open>simp_all add: wm_def hm_def\<close>)
  have mx: "max Dh (1 / 1000000000) = Dh" using DhL by simp
  have rrb: "0 < rr" "rr / 3.7 \<le> 30 / 74"
  proof -
    have Dp: "0 < Dh" using DhL by linarith
    show "0 < rr" unfolding rr_def mx using b\<epsilon> Dp by simp
    have "\<epsilon> / Dh \<le> (15 / 100000) / (1 / 10000)"
      using b\<epsilon> DhL by (intro frac_le) auto
    then show "rr / 3.7 \<le> 30 / 74" unfolding rr_def mx by simp
  qed
  have hf: "haalandFrictionFactor (Fin R) (Fin rr) = Fin f" and mf: "mag 4 42 f"
    using haaland_real[OF mag_weaken[OF mR] rrb] unfolding f_def by simp_all
  have e_wm: "ndiv (Fin w) (Fin 1000) = Fin wm"
    unfolding wm_def by (rule ndiv_mag[OF mw k(1)]) simp
  have e_hm: "ndiv (Fin h) (Fin 1000) = Fin hm"
    unfolding hm_def by (rule ndiv_mag[OF mh k(1)]) simp
  have e_A: "rectArea_m2_from_mm (Fin w) (Fin h) = Fin A"
    unfolding rectArea_m2_from_mm_def e_wm e_hm A_def
    using nmul_mag[OF mwm mhm] mag_pos[OF mA] by (simp add: nmax_def A_def)
  have e_P: "rectPerimeter_m_from_mm (Fin w) (Fin h) = Fin P"
    unfolding rectPerimeter_m_from_mm_def e_wm e_hm P_def
    using nadd_mag[OF mwm mhm] nmul_mag[OF k(2) ms] by simp
  have gA: "ngt (Fin A) (Fin 0)" using mag_pos[OF mA] by (simp add: ngt_def)
  have e_Dh: "ndiv (nmul (Fin 4) (Fin A)) (Fin P) = Fin Dh"
    unfolding Dh_def using nmul_mag[OF k(3) mA] ndiv_mag[OF m4A mP] by simp
  have e_V: "ndiv (Fin q) (Fin A) = Fin V"
    unfolding V_def by (rule ndiv_mag[OF mq mA]) simp
  have e_R: "ndiv (nmul (nmul (Fin \<rho>) (nabs (Fin V))) (Fin Dh)) (Fin \<mu>) = Fin R"
    unfolding R_def Vabs
    using nmul_mag[OF m\<rho> mV] nmul_mag[OF m\<rho>V mDh] ndiv_mag[OF m\<rho>VD m\<mu>] Vabs by simp
  have e_rr: "ndiv (Fin \<epsilon>) (nmax (Fin Dh) (Fin 0.000000001)) = Fin rr"
  proof -
    have n: "nmax (Fin Dh) (Fin 0.000000001) = Fin Dh" using DhL by (simp add: nmax_def)
    have "rr \<le> 3 / 2" using rrb(2) by simp
    then have "\<bar>rr\<bar> \<le> 1000000000000000000000000000000" using rrb(1) by linarith
    then have r: "rnd (\<epsilon> / Dh) = Fin rr" unfolding rr_def mx by (rule rnd_small)
    have "Dh \<noteq> 0" using DhL by auto
    then show ?thesis unfolding n using r by simp
  qed
  have gD: "ngt (Fin Dh) (Fin 0)" using DhL by (simp add: ngt_def)
  have m\<rho>VV: "mag 37 23 (\<rho> * V * V)" using mag_mult[OF m\<rho>V mV] by simp
  have mf\<rho>: "mag 41 65 (f * (\<rho> * V * V))" using mag_mult[OF mf m\<rho>VV] by simp
  have m2D: "mag 16 18 (2 * Dh)" using mag_mult[OF k(2) mDh] by simp
  have e_dp: "ndiv (nmul (Fin f) (nmul (nmul (Fin \<rho>) (Fin V)) (Fin V))) (nmul (Fin 2) (Fin Dh))
      = Fin (f * (\<rho> * V * V) / (2 * Dh))"
    using nmul_mag[OF m\<rho> mV] nmul_mag[OF m\<rho>V mV] nmul_mag[OF mf m\<rho>VV]
      nmul_mag[OF k(2) mDh] ndiv_mag[OF mf\<rho> m2D] by simp
  have "dp_per_m (calcRectNums (Fin w) (Fin h) (Fin q) T RH m) = Fin (f * (\<rho> * V * V) / (2 * Dh))"
    unfolding calcRectNums_def Let_def rho mu eps e_A e_P
    using gA gD e_Dh e_V e_R e_rr hf e_dp by simp
  moreover have "dpR \<rho> \<mu> \<epsilon> w h q = f * (\<rho> * V * V) / (2 * Dh)"
    unfolding dpR_def Let_def f_def rr_def R_def V_def Dh_def P_def A_def wm_def hm_def by simp
  ultimately show ?thesis by simp
qed

section \<open>Round trip of the missing-dimension bisection\<close>

text \<open>Air at 20 degrees and 50 percent humidity.\<close>

lemma air_20_50:
  "\<exists>\<rho> \<mu>. moistAirDensity (Fin 101325) (Fin 20) (Fin 50) = Fin \<rho>
         \<and> dynamicViscosityAir (Fin 20) = Fin \<mu>
         \<and> 117 / 100 \<le> \<rho> \<and> \<rho> \<le> 123 / 100
         \<and> 174 / 10000000 \<le> \<mu> \<and> \<mu> \<le> 189 / 10000000"
proof -
  define e :: real where "e = 352.5 / 263.04"
  have e: "0 \<le> e" "e \<le> 2" by (simp_all add: e_def)
  define ex where "ex = exp e"
  have ex: "1 \<le> ex" "ex \<le> 9"
  proof -
    show "1 \<le> ex" unfolding ex_def using e by simp
    have "exp e \<le> exp (2::real)" using e by simp
    also have "exp (2::real) = exp 1 ^ 2" by (simp add: exp_of_nat_mult[symmetric])
    also have "\<dots> \<le> 3 ^ 2" by (intro power_mono exp_le) simp
    finally show "ex \<le> 9" unfolding ex_def by simp
  qed
  define pv where "pv = 305.47 * ex"
  have pv: "305 \<le> pv" "pv \<le> 2750" using ex by (simp_all add: pv_def)
  define x1 where "x1 = (101325 - pv) / 84151.0527"
  define x2 where "x2 = pv / 135287.25925"
  have x1: "1171 / 1000 \<le> x1" "x1 \<le> 1201 / 1000" using pv by (simp_all add: x1_def)
  have x2: "0 \<le> x2" "x2 \<le> 21 / 1000" using pv by (simp_all add: x2_def)
  define \<rho> where "\<rho> = x1 + x2"
  have \<rho>: "117 / 100 \<le> \<rho>" "\<rho> \<le> 123 / 100" unfolding \<rho>_def using x1 x2 by linarith+
  have s_e: "ndiv (nmul (Fin 17.625) (Fin 20)) (nadd (Fin 243.04) (Fin 20)) = Fin e"
    by (simp add: rnd_small e_def)
  have s_ex: "nexp (Fin e) = Fin ex" using ex by (simp add: ex_def rnd_small)
  have s_es: "nmul (Fin 610.94) (Fin ex) = Fin (610.94 * ex)" using ex by (simp add: rnd_small)
  have s_pv: "nmul (ndiv (Fin 50) (Fin 100)) (Fin (610.94 * ex)) = Fin pv"
    using ex by (simp add: rnd_small pv_def)
  have s_pd: "nmax (nsub (Fin 101325) (Fin pv)) (Fin 0) = Fin (101325 - pv)"
    using pv by (simp add: nsub_def nmax_def rnd_small)
  have s_x1: "ndiv (Fin (101325 - pv)) (nmul (Fin 287.058) (nadd (Fin 20) (Fin 273.15))) = Fin x1"
    using x1 by (simp add: rnd_small x1_def)
  have s_x2: "ndiv (Fin pv) (nmul (Fin 461.495) (nadd (Fin 20) (Fin 273.15))) = Fin x2"
    using x2 by (simp add: rnd_small x2_def)
  have s_rho: "nadd (Fin x1) (Fin x2) = Fin \<rho>"
    using \<rho> by (simp add: rnd_small \<rho>_def)
  have E_rho: "moistAirDensity (Fin 101325) (Fin 20) (Fin 50) = Fin \<rho>"
    unfolding moistAirDensity_def saturationVaporPressurePa_def Let_def s_e s_ex s_es s_pv s_pd s_x1 s_x2 s_rho ..
  define x :: real where "x = 293.15 / 273.15"
  have x: "107 / 100 \<le> x" "x \<le> 1074 / 1000" by (simp_all add: x_def)
  define xp where "xp = x powr 1.5"
  have xp: "107 / 100 \<le> xp" "xp \<le> 1154 / 1000"
  proof -
    have "x powr 1 \<le> x powr 1.5" using x by (intro powr_mono) auto
    then show "107 / 100 \<le> xp" unfolding xp_def using x by simp
    have "x powr 1.5 \<le> x powr 2" using x by (intro powr_mono) auto
    also have "\<dots> = x ^ 2" using x by (simp add: powr_numeral)
    also have "\<dots> \<le> (1074 / 1000) ^ 2" using x by (intro power_mono) auto
    finally show "xp \<le> 1154 / 1000" unfolding xp_def by (simp add: power2_eq_square)
  qed
  define \<mu> where "\<mu> = 0.00001716 * xp * (383.55 / 403.55)"
  have \<mu>: "174 / 10000000 \<le> \<mu>" "\<mu> \<le> 189 / 10000000" using xp by (simp_all add: \<mu>_def)
  have s_x: "ndiv (nadd (Fin 20) (Fin 273.15)) (Fin 273.15) = Fin x"
    by (simp add: rnd_small x_def)
  have s_xp: "npow (Fin x) 1.5 = Fin xp" using xp x by (simp add: xp_def rnd_small)
  have s_k: "nmul (Fin 0.00001716) (Fin xp) = Fin (0.00001716 * xp)"
    using xp by (simp add: rnd_small)
  have s_g: "ndiv (nadd (Fin 273.15) (Fin 110.4)) (nadd (nadd (Fin 20) (Fin 273.15)) (Fin 110.4))
      = Fin (383.55 / 403.55)"
    by (simp add: rnd_small)
  have s_mu: "nmul (Fin (0.00001716 * xp)) (Fin (383.55 / 403.55)) = Fin \<mu>"
    using xp \<mu> by (simp add: rnd_small \<mu>_def)
  have E_mu: "dynamicViscosityAir (Fin 20) = Fin \<mu>"
    unfolding dynamicViscosityAir_def Let_def s_x s_xp s_k s_g s_mu ..
  show ?thesis using E_rho E_mu \<rho> \<mu> by blast
qed

text \<open>Nearby heights have nearby turbulent pressure drops, in relative terms.\<close>

lemma ln2_ge_half: "1 / 2 \<le> ln (2::real)"
proof -
  have "exp (1 / 2 :: real) ^ 2 = exp 1" by (simp add: exp_of_nat_mult[symmetric])
  also have "\<dots> \<le> 3" by (rule exp_le)
  finally have "exp (1 / 2 :: real) ^ 2 \<le> 2 ^ 2" by simp
  then have "exp (1 / 2 :: real) \<le> 2" by (rule power2_le_imp_le) simp
  then have "ln (exp (1 / 2 :: real)) \<le> ln 2" by (subst ln_le_cancel_iff) auto
  then show ?thesis by simp
qed

lemma AhaR_close:
  assumes e: "0 < \<epsilon>" and a: "0 < a" and x: "0 < x1" "x1 \<le> x2" and s: "0 < s"
  shows "(x1 / x2) ^ 2 * AhaR \<epsilon> s a x1 \<le> AhaR \<epsilon> s a x2"
proof -
  have x2: "0 < x2" using x by linarith
  define t where "t = x1 / x2"
  have t: "0 < t" "t \<le> 1" using x x2 by (simp_all add: t_def)
  define b1 where "b1 = \<epsilon> * (a + x1) / (7.4 * a * x1)"
  define b2 where "b2 = \<epsilon> * (a + x2) / (7.4 * a * x2)"
  have b1: "0 < b1" unfolding b1_def using e a x by simp
  have tb: "t * b1 = \<epsilon> * (a + x1) / (7.4 * a * x2)"
    unfolding t_def b1_def using x x2 a by (simp add: field_simps)
  have "\<epsilon> * (a + x1) / (7.4 * a * x2) \<le> \<epsilon> * (a + x2) / (7.4 * a * x2)"
    using e a x x2 by (intro divide_right_mono mult_left_mono) auto
  then have le: "t * b1 \<le> b2" unfolding tb b2_def .
  have "t ^ 2 * b1 powr 1.11 = t powr 2 * b1 powr 1.11" using t by (simp add: powr_numeral)
  also have "\<dots> \<le> t powr 1.11 * b1 powr 1.11"
    using t by (intro mult_right_mono powr_mono') auto
  also have "\<dots> = (t * b1) powr 1.11" using t b1 by (simp add: powr_mult)
  also have "\<dots> \<le> b2 powr 1.11" using le t b1 by (intro powr_mono2) auto
  finally have r: "t ^ 2 * roughR \<epsilon> a x1 \<le> roughR \<epsilon> a x2"
    unfolding roughR_def b1_def b2_def .
  have t2: "t ^ 2 \<le> 1" using t by (simp add: power_le_one)
  have "t ^ 2 * (s * (a + x1)) \<le> 1 * (s * (a + x1))"
    using t2 s a x by (intro mult_right_mono) auto
  also have "\<dots> \<le> s * (a + x2)" using s x by simp
  finally have "t ^ 2 * (s * (a + x1)) \<le> s * (a + x2)" .
  then show ?thesis unfolding AhaR_rough t_def[symmetric] using r by (simp add: algebra_simps)
qed

lemma psi_close:
  assumes "0 < \<epsilon>" "\<epsilon> \<le> 15 / 100000" "1 / 10000 \<le> a" "1 / 10000 \<le> x1" "x1 \<le> x2"
    and "0 < s" "s * (a + x2) \<le> 3 / 1000" and eta: "0 \<le> \<eta>" "x2 \<le> (1 + \<eta>) * x1"
  shows "psi \<epsilon> s a x2 \<le> (1 + \<eta>) * (1 + 4 * \<eta>) * psi \<epsilon> s a x1"
proof -
  have p: "0 < a" "0 < x1" "0 < x2" "1 / 10000 \<le> x2" using assms by linarith+
  define A1 where "A1 = AhaR \<epsilon> s a x1"
  define A2 where "A2 = AhaR \<epsilon> s a x2"
  define t where "t = x1 / x2"
  have t: "0 < t" "t \<le> 1" using p assms by (simp_all add: t_def)
  have r1: "0 < roughR \<epsilon> a x1" "roughR \<epsilon> a x1 \<le> 30 / 74"
    by (rule roughR_bounds[OF assms(1-4)])+
  have su: "0 < s * (a + x1)" "s * (a + x1) \<le> 3 / 1000"
  proof -
    show "0 < s * (a + x1)" using assms p by simp
    have "s * (a + x1) \<le> s * (a + x2)" using assms by simp
    then show "s * (a + x1) \<le> 3 / 1000" using assms(7) by linarith
  qed
  have A1: "0 < A1" "A1 \<le> 1 / 2" unfolding A1_def AhaR_rough using r1 su by linarith+
  have cl: "t ^ 2 * A1 \<le> A2"
    unfolding t_def A1_def A2_def by (rule AhaR_close[OF assms(1) p(1,2) assms(5,6)])
  have tA: "0 < t ^ 2 * A1" using t A1 by simp
  have A2: "0 < A2" using cl tA by linarith
  have "ln (t ^ 2 * A1) \<le> ln A2" using cl tA A2 by (subst ln_le_cancel_iff) auto
  moreover have "ln (t ^ 2 * A1) = 2 * ln t + ln A1"
    using t A1 by (simp add: ln_mult ln_realpow)
  ultimately have l: "- ln A2 \<le> - ln A1 - 2 * ln t" by linarith
  have "- ln t = ln (1 / t)" using t by (simp add: ln_div)
  also have "\<dots> \<le> 1 / t - 1" using t by (intro ln_le_minus_one) simp
  also have "1 / t = x2 / x1" using p by (simp add: t_def)
  also have "x2 / x1 - 1 \<le> \<eta>"
  proof -
    have "x2 / x1 \<le> (1 + \<eta>) * x1 / x1" using eta p by (intro divide_right_mono) auto
    then show ?thesis using p by simp
  qed
  finally have lt: "- ln t \<le> \<eta>" by simp
  have "ln A1 \<le> ln (1 / 2)" using A1 by (subst ln_le_cancel_iff) auto
  also have "ln (1 / 2 :: real) = - ln 2" by (simp add: ln_div)
  finally have nA1: "1 / 2 \<le> - ln A1" using ln2_ge_half by linarith
  have "2 * \<eta> \<le> 4 * \<eta> * (- ln A1)"
  proof -
    have "4 * \<eta> * (1 / 2) \<le> 4 * \<eta> * (- ln A1)" using nA1 eta by (intro mult_left_mono) auto
    then show ?thesis by simp
  qed
  then have lnb: "- ln A2 \<le> (1 + 4 * \<eta>) * (- ln A1)"
    using l lt by (simp add: algebra_simps)
  have ax: "a + x2 \<le> (1 + \<eta>) * (a + x1)"
  proof -
    have "0 \<le> \<eta> * a" using eta p by simp
    then show ?thesis using eta(2) by (simp add: algebra_simps)
  qed
  have "(a + x2) * (- ln A2) \<le> ((1 + \<eta>) * (a + x1)) * ((1 + 4 * \<eta>) * (- ln A1))"
  proof (rule mult_mono)
    show "a + x2 \<le> (1 + \<eta>) * (a + x1)" by (rule ax)
    show "- ln A2 \<le> (1 + 4 * \<eta>) * (- ln A1)" by (rule lnb)
    show "0 \<le> (1 + \<eta>) * (a + x1)" using eta p by simp
    have "0 < psi \<epsilon> s a x2"
      by (rule psi_mono(2)[OF assms(1-3) p(4) order_refl assms(6,7)])
    then have "0 < (a + x2) * (- ln A2)" by (simp add: psi_def A2_def)
    moreover have "0 < a + x2" using p by simp
    ultimately have "0 < - ln A2" by (rule zero_less_mult_pos)
    then show "0 \<le> - ln A2" by simp
  qed
  then show ?thesis unfolding psi_def A1_def A2_def by (simp add: mult_ac)
qed

lemma turbR_close:
  assumes "0 < \<rho>" "0 < q" "0 < \<epsilon>" "\<epsilon> \<le> 15 / 100000" "1 / 10000 \<le> a" "1 / 10000 \<le> x1"
    "x1 \<le> x2" "0 < s" "s * (a + x2) \<le> 3 / 1000" and eta: "0 \<le> \<eta>" "x2 \<le> (1 + \<eta>) * x1"
  shows "turbR \<rho> q \<epsilon> s a x1 \<le> (1 + \<eta>) ^ 3 * ((1 + \<eta>) * (1 + 4 * \<eta>)) ^ 2 * turbR \<rho> q \<epsilon> s a x2"
proof -
  have p: "0 < a" "0 < x1" "0 < x2" "1 / 10000 \<le> x2" using assms by linarith+
  define k where "k = (1 + \<eta>) * (1 + 4 * \<eta>)"
  have k: "0 < k" unfolding k_def using eta by (intro mult_pos_pos) auto
  define p1 where "p1 = psi \<epsilon> s a x1"
  define p2 where "p2 = psi \<epsilon> s a x2"
  define c1 where "c1 = (a + x1) / x1"
  define c2 where "c2 = (a + x2) / x2"
  have ps: "0 < p1" "p1 \<le> p2" "p2 \<le> k * p1"
    unfolding p1_def p2_def k_def
    using psi_mono[OF assms(3-9)] psi_close[OF assms(3-9) eta] by auto
  have p2: "0 < p2" using ps by linarith
  have c: "0 < c1" "0 < c2" "c1 \<le> (1 + \<eta>) * c2"
  proof -
    show "0 < c1" "0 < c2" unfolding c1_def c2_def using p by simp_all
    have "(a + x1) * x2 \<le> (1 + \<eta>) * (a + x2) * x1"
    proof -
      have "(a + x1) * x2 \<le> (a + x2) * x2" using assms p by (intro mult_right_mono) auto
      also have "\<dots> \<le> (a + x2) * ((1 + \<eta>) * x1)" using eta p by (intro mult_left_mono) auto
      finally show ?thesis by (simp add: mult_ac)
    qed
    then show "c1 \<le> (1 + \<eta>) * c2" unfolding c1_def c2_def using p by (simp add: field_simps)
  qed
  have c3: "c1 ^ 3 \<le> (1 + \<eta>) ^ 3 * c2 ^ 3"
  proof -
    have "c1 ^ 3 \<le> ((1 + \<eta>) * c2) ^ 3" using c by (intro power_mono) auto
    then show ?thesis by (simp add: power_mult_distrib)
  qed
  have q2: "p2 ^ 2 \<le> k ^ 2 * p1 ^ 2"
  proof -
    have "p2 ^ 2 \<le> (k * p1) ^ 2" using ps p2 by (intro power_mono) auto
    then show ?thesis by (simp add: power_mult_distrib)
  qed
  have pp: "0 < p1 ^ 2" "0 < p2 ^ 2" using ps p2 by simp_all
  have "c1 ^ 3 / p1 ^ 2 \<le> ((1 + \<eta>) ^ 3 * c2 ^ 3) / (p2 ^ 2 / k ^ 2)"
  proof (rule frac_le)
    show "0 \<le> (1 + \<eta>) ^ 3 * c2 ^ 3" using c eta by simp
    show "c1 ^ 3 \<le> (1 + \<eta>) ^ 3 * c2 ^ 3" by (rule c3)
    show "0 < p2 ^ 2 / k ^ 2" using pp k by simp
    show "p2 ^ 2 / k ^ 2 \<le> p1 ^ 2" using q2 k by (simp add: pos_divide_le_eq mult.commute)
  qed
  then have m: "c1 ^ 3 / p1 ^ 2 \<le> (1 + \<eta>) ^ 3 * k ^ 2 * (c2 ^ 3 / p2 ^ 2)"
    by (simp add: mult_ac)
  define C where "C = \<rho> * q ^ 2 / (4 * a ^ 3) * (ln 10 / 1.8) ^ 2"
  have C: "0 \<le> C" unfolding C_def using assms p by simp
  have "C * (c1 ^ 3 / p1 ^ 2) \<le> C * ((1 + \<eta>) ^ 3 * k ^ 2 * (c2 ^ 3 / p2 ^ 2))"
    using m C by (rule mult_left_mono)
  then have "C * (c1 ^ 3 / p1 ^ 2) \<le> (1 + \<eta>) ^ 3 * k ^ 2 * (C * (c2 ^ 3 / p2 ^ 2))"
    by (simp add: mult_ac)
  then show ?thesis
    unfolding turbR_psi[OF p(1,2)] turbR_psi[OF p(1,3)] C_def c1_def c2_def p1_def p2_def k_def .
qed

lemma duct300_s:
  fixes \<rho> \<mu> x :: real
  assumes r: "117 / 100 \<le> \<rho>" "\<rho> \<le> 123 / 100"
    and m: "174 / 10000000 \<le> \<mu>" "\<mu> \<le> 189 / 10000000"
    and x: "1 / 10000 \<le> x" "x \<le> 5"
  shows "1 / 100000 \<le> 3.45 * \<mu> / (\<rho> * (2 / 10)) * (3 / 10 + x)"
    and "3.45 * \<mu> / (\<rho> * (2 / 10)) * (3 / 10 + x) \<le> 3 / 1000"
    and "0 < 3.45 * \<mu> / (\<rho> * (2 / 10))"
proof -
  define s where "s = 3.45 * \<mu> / (\<rho> * (2 / 10))"
  have rp: "0 < \<rho>" "0 < \<mu>" using r m by linarith+
  have lo: "2 / 10000 \<le> s"
  proof -
    have "2 / 10000 * (\<rho> * (2 / 10)) \<le> 3.45 * \<mu>" using r m by simp
    then show ?thesis unfolding s_def using rp by (simp add: pos_le_divide_eq)
  qed
  have hi: "s \<le> 3 / 10000"
  proof -
    have "3.45 * \<mu> \<le> 3 / 10000 * (\<rho> * (2 / 10))" using r m by simp
    then show ?thesis unfolding s_def using rp by (simp add: pos_divide_le_eq)
  qed
  have "2 / 10000 * (3 / 10) \<le> s * (3 / 10 + x)" using lo x by (intro mult_mono) auto
  then show "1 / 100000 \<le> 3.45 * \<mu> / (\<rho> * (2 / 10)) * (3 / 10 + x)" unfolding s_def by simp
  have "s * (3 / 10 + x) \<le> 3 / 10000 * (3 / 10 + 5)" using lo hi x by (intro mult_mono) auto
  then show "3.45 * \<mu> / (\<rho> * (2 / 10)) * (3 / 10 + x) \<le> 3 / 1000" unfolding s_def by simp
  show "0 < 3.45 * \<mu> / (\<rho> * (2 / 10))" using lo unfolding s_def by linarith
qed

lemma duct300_turbulent:
  assumes r: "117 / 100 \<le> \<rho>" "\<rho> \<le> 123 / 100"
    and m: "174 / 10000000 \<le> \<mu>" "\<mu> \<le> 189 / 10000000"
    and x: "1 / 10000 \<le> x" "x \<le> 5"
  shows "duct300 \<rho> \<mu> x = turbR \<rho> (2 / 10) (15 / 100000) (3.45 * \<mu> / (\<rho> * (2 / 10))) (3 / 10) x"
proof -
  have rp: "0 < \<rho>" "0 < \<mu>" using r m by linarith+
  have "2300 * ((3 / 10 + x) * \<mu>) \<le> 2300 * ((3 / 10 + 5) * (189 / 10000000))"
    using x m rp by (intro mult_left_mono mult_mono) auto
  also have "\<dots> \<le> 2 * \<rho> * (2 / 10)" using r by simp
  finally have "2300 * ((3 / 10 + x) * \<mu>) \<le> 2 * \<rho> * (2 / 10)" .
  moreover have "0 < (3 / 10 + x) * \<mu>" using x rp by (intro mult_pos_pos) auto
  ultimately have "2300 \<le> ReR \<rho> \<mu> (2 / 10) (3 / 10) x"
    unfolding ReR_def by (simp add: pos_le_divide_eq)
  then have nl: "\<not> ReR \<rho> \<mu> (2 / 10) (3 / 10) x < 2300" by simp
  have "dpR \<rho> \<mu> (15 / 100000) 300 (x * 1000) (2 / 10) =
     (if ReR \<rho> \<mu> (2 / 10) (300 / 1000) (x * 1000 / 1000) < 2300
      then lamR \<mu> (2 / 10) (300 / 1000) (x * 1000 / 1000)
      else turbR \<rho> (2 / 10) (15 / 100000) (3.45 * \<mu> / (\<rho> * (2 / 10))) (300 / 1000) (x * 1000 / 1000))"
    by (rule dpR_regimes) (use rp x in simp_all)
  then show ?thesis unfolding duct300_def using nl by simp
qed

lemma turbR_range:
  assumes "0 < \<rho>" "0 < q" "0 < \<epsilon>" "\<epsilon> \<le> 15 / 100000" "1 / 10000 \<le> a" "1 / 10000 \<le> x"
    and s: "1 / 100000 \<le> s * (a + x)" "s * (a + x) \<le> 3 / 1000"
  shows "\<rho> * q ^ 2 * (a + x) / (4 * a ^ 3 * x ^ 3) / 81 \<le> turbR \<rho> q \<epsilon> s a x"
    and "turbR \<rho> q \<epsilon> s a x \<le> \<rho> * q ^ 2 * (a + x) / (4 * a ^ 3 * x ^ 3) / (81 / 400)"
proof -
  have p: "0 < a" "0 < x" using assms by linarith+
  define G where "G = \<rho> * q ^ 2 * (a + x) / (4 * a ^ 3 * x ^ 3)"
  have G: "0 \<le> G" unfolding G_def using assms p by simp
  define A where "A = AhaR \<epsilon> s a x"
  have r: "0 < roughR \<epsilon> a x" "roughR \<epsilon> a x \<le> 30 / 74"
    by (rule roughR_bounds[OF assms(3-6)])+
  have A: "1 / 10 ^ 5 \<le> A" "A \<le> 1 / 2" "0 < A"
    unfolding A_def AhaR_rough using r s by simp_all
  define L where "L = log 10 A"
  have L: "- 5 \<le> L" "L \<le> - 1 / 4"
  proof -
    show "- 5 \<le> L" unfolding L_def using log10_ge[OF A(1)] by simp
    have "L \<le> log 10 (1 / 2)" unfolding L_def using A by (subst log_le_cancel_iff) auto
    then show "L \<le> - 1 / 4" using log10_half by linarith
  qed
  define Y where "Y = (1.8 * L) ^ 2"
  have Ye: "Y = (1.8 * (- L)) ^ 2" unfolding Y_def by (simp add: power2_eq_square)
  have Y: "81 / 400 \<le> Y" "Y \<le> 81"
  proof -
    have "(1.8 * (1 / 4)) ^ 2 \<le> (1.8 * (- L)) ^ 2" using L by (intro power_mono) auto
    then show "81 / 400 \<le> Y" unfolding Ye by (simp add: power2_eq_square)
    have "(1.8 * (- L)) ^ 2 \<le> (1.8 * 5) ^ 2" using L by (intro power_mono) auto
    then show "Y \<le> 81" unfolding Ye by (simp add: power2_eq_square)
  qed
  have t: "turbR \<rho> q \<epsilon> s a x = G / Y" unfolding turbR_def G_def Y_def L_def A_def ..
  have "G / 81 \<le> G / Y" using Y G by (intro divide_left_mono) auto
  then show "\<rho> * q ^ 2 * (a + x) / (4 * a ^ 3 * x ^ 3) / 81 \<le> turbR \<rho> q \<epsilon> s a x"
    unfolding t G_def .
  have "G / Y \<le> G / (81 / 400)" using Y G by (intro divide_left_mono) auto
  then show "turbR \<rho> q \<epsilon> s a x \<le> \<rho> * q ^ 2 * (a + x) / (4 * a ^ 3 * x ^ 3) / (81 / 400)"
    unfolding t G_def .
qed

lemma duct300_ends:
  assumes r: "117 / 100 \<le> \<rho>" "\<rho> \<le> 123 / 100"
    and m: "174 / 10000000 \<le> \<mu>" "\<mu> \<le> 189 / 10000000"
  shows "1 < duct300 \<rho> \<mu> (1 / 10000)" "duct300 \<rho> \<mu> (1 / 10000) \<le> 10 ^ 12"
    and "duct300 \<rho> \<mu> 5 \<le> 1"
proof -
  have rp: "0 < \<rho>" using r by linarith
  note s1 = duct300_s[OF r m, of "1 / 10000"]
  note s5 = duct300_s[OF r m, of 5]
  have e1: "duct300 \<rho> \<mu> (1 / 10000) =
      turbR \<rho> (2 / 10) (15 / 100000) (3.45 * \<mu> / (\<rho> * (2 / 10))) (3 / 10) (1 / 10000)"
    by (rule duct300_turbulent[OF r m]) simp_all
  have e5: "duct300 \<rho> \<mu> 5 =
      turbR \<rho> (2 / 10) (15 / 100000) (3.45 * \<mu> / (\<rho> * (2 / 10))) (3 / 10) 5"
    by (rule duct300_turbulent[OF r m]) simp_all
  have b1: "\<rho> * (2 / 10) ^ 2 * (3 / 10 + 1 / 10000) / (4 * (3 / 10) ^ 3 * (1 / 10000) ^ 3) / 81
        \<le> duct300 \<rho> \<mu> (1 / 10000)"
    unfolding e1 by (rule turbR_range(1)) (use rp s1 in simp_all)
  have b2: "duct300 \<rho> \<mu> (1 / 10000)
        \<le> \<rho> * (2 / 10) ^ 2 * (3 / 10 + 1 / 10000) / (4 * (3 / 10) ^ 3 * (1 / 10000) ^ 3) / (81 / 400)"
    unfolding e1 by (rule turbR_range(2)) (use rp s1 in simp_all)
  have b5: "duct300 \<rho> \<mu> 5
        \<le> \<rho> * (2 / 10) ^ 2 * (3 / 10 + 5) / (4 * (3 / 10) ^ 3 * 5 ^ 3) / (81 / 400)"
    unfolding e5 by (rule turbR_range(2)) (use rp s5 in simp_all)
  have g1: "\<rho> * (2 / 10) ^ 2 * (3 / 10 + 1 / 10000) / (4 * (3 / 10) ^ 3 * (1 / 10000) ^ 3)
      = \<rho> * (3001000000000 / 27)"
    by (simp add: power2_eq_square power3_eq_cube)
  have g5: "\<rho> * (2 / 10) ^ 2 * (3 / 10 + 5) / (4 * (3 / 10) ^ 3 * 5 ^ 3) = \<rho> * (212 / 13500)"
    by (simp add: power2_eq_square power3_eq_cube)
  show "1 < duct300 \<rho> \<mu> (1 / 10000)" using b1 r unfolding g1 by simp
  show "duct300 \<rho> \<mu> (1 / 10000) \<le> 10 ^ 12" using b2 r unfolding g1 by simp
  show "duct300 \<rho> \<mu> 5 \<le> 1" using b5 r unfolding g5 by simp
qed

lemma duct300_antimono:
  assumes r: "117 / 100 \<le> \<rho>" "\<rho> \<le> 123 / 100"
    and m: "174 / 10000000 \<le> \<mu>" "\<mu> \<le> 189 / 10000000"
    and x: "1 / 10000 \<le> x" "x \<le> y" "y \<le> 5"
  shows "duct300 \<rho> \<mu> y \<le> duct300 \<rho> \<mu> x"
proof -
  have rp: "0 < \<rho>" using r by linarith
  have xy: "x \<le> 5" "1 / 10000 \<le> y" using x by linarith+
  note sy = duct300_s[OF r m xy(2) x(3)]
  show ?thesis
    unfolding duct300_turbulent[OF r m x(1) xy(1)] duct300_turbulent[OF r m xy(2) x(3)]
    by (rule turbR_antimono) (use rp x sy in simp_all)
qed

lemma duct300_close:
  assumes r: "117 / 100 \<le> \<rho>" "\<rho> \<le> 123 / 100"
    and m: "174 / 10000000 \<le> \<mu>" "\<mu> \<le> 189 / 10000000"
    and x: "1 / 10000 \<le> x" "x \<le> y" "y \<le> 5" and d: "y - x \<le> 1 / 10 ^ 17"
  shows "duct300 \<rho> \<mu> x \<le> (1 + 1 / 10 ^ 5) * duct300 \<rho> \<mu> y"
proof -
  have rp: "0 < \<rho>" using r by linarith
  have xy: "x \<le> 5" "1 / 10000 \<le> y" using x by linarith+
  note sy = duct300_s[OF r m xy(2) x(3)]
  define \<eta> :: real where "\<eta> = 1 / 10 ^ 13"
  have eta: "0 \<le> \<eta>" by (simp add: \<eta>_def)
  have "1 / 10 ^ 17 \<le> \<eta> * x"
  proof -
    have "\<eta> * (1 / 10000) \<le> \<eta> * x" using x eta by (intro mult_left_mono) auto
    then show ?thesis by (simp add: \<eta>_def)
  qed
  then have yx: "y \<le> (1 + \<eta>) * x" using d by (simp add: algebra_simps)
  have k: "(1 + \<eta>) ^ 3 * ((1 + \<eta>) * (1 + 4 * \<eta>)) ^ 2 \<le> 1 + 1 / 10 ^ 5"
    by (simp add: \<eta>_def power2_eq_square power3_eq_cube)
  have ny: "0 \<le> duct300 \<rho> \<mu> y"
  proof -
    have "0 \<le> \<rho> * (2 / 10) ^ 2 * (3 / 10 + y) / (4 * (3 / 10) ^ 3 * y ^ 3) / 81"
      using rp xy by simp
    also have "\<dots> \<le> turbR \<rho> (2 / 10) (15 / 100000) (3.45 * \<mu> / (\<rho> * (2 / 10))) (3 / 10) y"
      by (rule turbR_range(1)) (use rp xy sy in simp_all)
    finally show ?thesis unfolding duct300_turbulent[OF r m xy(2) x(3)] .
  qed
  have "duct300 \<rho> \<mu> x
      \<le> (1 + \<eta>) ^ 3 * ((1 + \<eta>) * (1 + 4 * \<eta>)) ^ 2 * duct300 \<rho> \<mu> y"
    unfolding duct300_turbulent[OF r m x(1) xy(1)] duct300_turbulent[OF r m xy(2) x(3)]
    by (rule turbR_close) (use rp x sy eta yx in simp_all)
  also have "\<dots> \<le> (1 + 1 / 10 ^ 5) * duct300 \<rho> \<mu> y"
    using k ny by (rule mult_right_mono)
  finally show ?thesis .
qed

lemma within_tol_1:
  assumes "0 \<le> d" "d \<le> 10 ^ 12"
  shows "within_tol (Fin d) (Fin 1) \<longleftrightarrow> \<bar>d - 1\<bar> < 1 / 10000"
proof -
  have "\<bar>d - 1\<bar> \<le> 1000000000000000000000000000000" using assms by simp
  then have s: "rnd (d - 1) = Fin (d - 1)" by (rule rnd_small)
  have "\<bar>\<bar>d - 1\<bar>\<bar> \<le> 1000000000000000000000000000000" using assms by simp
  then have s2: "rnd \<bar>d - 1\<bar> = Fin \<bar>d - 1\<bar>" by (rule rnd_small)
  show ?thesis by (simp add: within_tol_def nsub_def nmax_def s s2)
qed

text \<open>
  The bisection on a non-increasing evaluation whose values at nearby heights are close:
  it stops at a midpoint within the tolerance of the target 1.
\<close>

lemma smd_loop_converges:
  fixes D :: "real \<Rightarrow> real"
  assumes ev: "\<And>m. 1 / 10000 \<le> m \<Longrightarrow> m \<le> 5
                 \<Longrightarrow> smf_dp a (mToMm fixed_m) (mToMm (Fin m)) Q = Fin (D m)"
    and rng: "\<And>m. 1 / 10000 \<le> m \<Longrightarrow> m \<le> 5 \<Longrightarrow> 0 \<le> D m \<and> D m \<le> 10 ^ 12"
    and mono: "\<And>x y. 1 / 10000 \<le> x \<Longrightarrow> x \<le> y \<Longrightarrow> y \<le> 5 \<Longrightarrow> D y \<le> D x"
    and close: "\<And>x y. 1 / 10000 \<le> x \<Longrightarrow> x \<le> y \<Longrightarrow> y \<le> 5 \<Longrightarrow> y - x \<le> 1 / 10 ^ 17
                 \<Longrightarrow> D x \<le> (1 + 1 / 10 ^ 5) * D y"
    and l: "1 / 10000 \<le> l" "l \<le> u" "u \<le> 5" "1 < D l" "D u \<le> 1" "u - l \<le> 2 ^ n / 10 ^ 17"
  shows "\<exists>m. 1 / 10000 \<le> m \<and> m \<le> 5
           \<and> smd_loop a True fixed_m Q (Fin 1) (Suc n) (Fin l) (Fin u) best = Some (Fin m, Fin (D m))
           \<and> \<bar>D m - 1\<bar> < 1 / 10000"
  using l
proof (induction n arbitrary: l u best)
  case 0
  let ?m = "(l + u) / 2"
  have mid: "nmul (Fin 0.5) (nadd (Fin l) (Fin u)) = Fin ?m"
    using 0 by (intro mid_val5) auto
  have mb: "1 / 10000 \<le> ?m" "l \<le> ?m" "?m \<le> u" "?m \<le> 5" using 0 by auto
  have dp: "smf_dp a (mToMm fixed_m) (mToMm (Fin ?m)) Q = Fin (D ?m)" by (rule ev[OF mb(1,4)])
  have r: "0 \<le> D ?m" "D ?m \<le> 10 ^ 12" using rng[OF mb(1,4)] by auto
  have c: "D l \<le> (1 + 1 / 10 ^ 5) * D u"
    using close[OF "0.prems"(1,2,3)] "0.prems"(6) by simp
  have m1: "D ?m \<le> D l" by (rule mono[OF "0.prems"(1) mb(2) mb(4)])
  have m2: "D u \<le> D ?m" by (rule mono[OF mb(1) mb(3) "0.prems"(3)])
  have c': "D l \<le> D u + D u / 100000" using c by (simp add: algebra_simps)
  have "\<bar>D ?m - 1\<bar> < 1 / 10000" using c' m1 m2 "0.prems"(4,5) by linarith
  then have w: "within_tol (Fin (D ?m)) (Fin 1)" using within_tol_1[OF r] by simp
  have eq: "smd_loop a True fixed_m Q (Fin 1) (Suc 0) (Fin l) (Fin u) best = Some (Fin ?m, Fin (D ?m))"
    unfolding smd_step[OF mid] using dp w by (simp add: Let_def)
  show ?case unfolding eq using mb w within_tol_1[OF r] by blast
next
  case (Suc n)
  let ?m = "(l + u) / 2"
  have mid: "nmul (Fin 0.5) (nadd (Fin l) (Fin u)) = Fin ?m"
    using Suc.prems by (intro mid_val5) auto
  have mb: "1 / 10000 \<le> ?m" "l \<le> ?m" "?m \<le> u" "?m \<le> 5" using Suc.prems by auto
  have dp: "smf_dp a (mToMm fixed_m) (mToMm (Fin ?m)) Q = Fin (D ?m)" by (rule ev[OF mb(1,4)])
  have r: "0 \<le> D ?m" "D ?m \<le> 10 ^ 12" using rng[OF mb(1,4)] by auto
  have half: "u - ?m \<le> 2 ^ n / 10 ^ 17" "?m - l \<le> 2 ^ n / 10 ^ 17"
    using Suc.prems(6) by (simp_all add: field_simps)
  show ?case
  proof (cases "within_tol (Fin (D ?m)) (Fin 1)")
    case True
    have eq: "smd_loop a True fixed_m Q (Fin 1) (Suc (Suc n)) (Fin l) (Fin u) best
        = Some (Fin ?m, Fin (D ?m))"
      unfolding smd_step[OF mid] using dp True by (simp add: Let_def)
    show ?thesis unfolding eq using mb True within_tol_1[OF r] by blast
  next
    case nt: False
    show ?thesis
    proof (cases "1 < D ?m")
      case True
      have eq: "smd_loop a True fixed_m Q (Fin 1) (Suc (Suc n)) (Fin l) (Fin u) best
          = smd_loop a True fixed_m Q (Fin 1) (Suc n) (Fin ?m) (Fin u) (Some (Fin ?m, Fin (D ?m)))"
        unfolding smd_step[OF mid] using dp nt True by (simp add: Let_def ngt_def)
      show ?thesis
        unfolding eq by (rule Suc.IH[OF mb(1) mb(3) Suc.prems(3) True Suc.prems(5) half(1)])
    next
      case False
      then have le: "D ?m \<le> 1" by simp
      have eq: "smd_loop a True fixed_m Q (Fin 1) (Suc (Suc n)) (Fin l) (Fin u) best
          = smd_loop a True fixed_m Q (Fin 1) (Suc n) (Fin l) (Fin ?m) (Some (Fin ?m, Fin (D ?m)))"
        unfolding smd_step[OF mid] using dp nt False by (simp add: Let_def ngt_def)
      show ?thesis
        unfolding eq by (rule Suc.IH[OF Suc.prems(1) mb(2) mb(4) Suc.prems(4) le half(2)])
    qed
  qed
qed

text \<open>
  Claim C4.  For the fixed width 300 mm, the flow 0.2 m3/s, the target 1.0 Pa/m, galvanised
  steel, 20 degrees and 50 percent humidity, \<^verbatim>\<open>solveMissingDimension\<close> returns a height, and the
  pressure drop that \<^verbatim>\<open>calcRectNums\<close> evaluates at that height differs from the target by less
  than the relative tolerance 1e-4.
\<close>

theorem solveMissingDimension_round_trip:
  assumes a: "temperature a = Fin 20" "rh a = Fin 50" "material a = ''Galvanised steel''"
  shows "\<exists>sol d. solveMissingDimension a True (Fin 300) (Fin 0.2) (Fin 1) = Some sol
           \<and> dp_per_m (calcRectNums (Fin 300) (displayValueMm sol) (Fin 0.2) (Fin 20) (Fin 50)
                 ''Galvanised steel'') = Fin d
           \<and> \<bar>d - 1\<bar> < 1 / 10000"
proof -
  obtain \<rho> \<mu> where rho: "moistAirDensity (Fin 101325) (Fin 20) (Fin 50) = Fin \<rho>"
    and mu: "dynamicViscosityAir (Fin 20) = Fin \<mu>"
    and r: "117 / 100 \<le> \<rho>" "\<rho> \<le> 123 / 100"
    and m: "174 / 10000000 \<le> \<mu>" "\<mu> \<le> 189 / 10000000"
    using air_20_50 by blast
  have eps: "(case ROUGHNESS ''Galvanised steel'' of Some e \<Rightarrow> e | None \<Rightarrow> Fin 0.00015)
      = Fin (15 / 100000)"
    by (simp add: ROUGHNESS_def)
  have calc: "dp_per_m (calcRectNums (Fin 300) (Fin (x * 1000)) (Fin 0.2) (Fin 20) (Fin 50)
       ''Galvanised steel'') = Fin (duct300 \<rho> \<mu> x)"
    if "1 / 10000 \<le> x" "x \<le> 5" for x
  proof -
    have "dp_per_m (calcRectNums (Fin 300) (Fin (x * 1000)) (Fin (2 / 10)) (Fin 20) (Fin 50)
        ''Galvanised steel'') = Fin (dpR \<rho> \<mu> (15 / 100000) 300 (x * 1000) (2 / 10))"
      by (rule calc_dp_real[OF rho mu eps]) (use r m that in simp_all)
    then show ?thesis by (simp add: duct300_def)
  qed
  have fm: "mToMm (Fin (3 / 10)) = Fin 300" by (simp add: mToMm_def rnd_small)
  have mm: "mToMm (Fin x) = Fin (x * 1000)" if "1 / 10000 \<le> x" "x \<le> 5" for x
    using that by (simp add: mToMm_def rnd_small)
  have ev: "smf_dp a (mToMm (Fin (3 / 10))) (mToMm (Fin x)) (Fin 0.2) = Fin (duct300 \<rho> \<mu> x)"
    if "1 / 10000 \<le> x" "x \<le> 5" for x
    unfolding fm mm[OF that] smf_dp_def a using calc[OF that] by (simp add: safeNum_def)
  have rng: "0 \<le> duct300 \<rho> \<mu> x \<and> duct300 \<rho> \<mu> x \<le> 10 ^ 12"
    if "1 / 10000 \<le> x" "x \<le> 5" for x
  proof -
    have "duct300 \<rho> \<mu> 5 \<le> duct300 \<rho> \<mu> x"
      by (rule duct300_antimono[OF r m that(1) that(2)]) simp
    moreover have "duct300 \<rho> \<mu> x \<le> duct300 \<rho> \<mu> (1 / 10000)"
      by (rule duct300_antimono[OF r m _ that(1) that(2)]) simp
    moreover have "0 \<le> duct300 \<rho> \<mu> 5"
    proof -
      have "duct300 \<rho> \<mu> 5 \<le> (1 + 1 / 10 ^ 5) * duct300 \<rho> \<mu> 5"
        by (rule duct300_close[OF r m]) simp_all
      then show ?thesis by simp
    qed
    ultimately show ?thesis using duct300_ends(2)[OF r m] by linarith
  qed
  obtain x where x: "1 / 10000 \<le> x" "x \<le> 5"
    and loop: "smd_loop a True (Fin (3 / 10)) (Fin 0.2) (Fin 1) (Suc 59) (Fin (1 / 10000)) (Fin 5) None
        = Some (Fin x, Fin (duct300 \<rho> \<mu> x))"
    and tol: "\<bar>duct300 \<rho> \<mu> x - 1\<bar> < 1 / 10000"
    using smd_loop_converges[of a "Fin (3 / 10)" "Fin 0.2" "duct300 \<rho> \<mu>" "1 / 10000" 5 59 None,
        OF ev rng duct300_antimono[OF r m] duct300_close[OF r m] _ _ _
        duct300_ends(1)[OF r m] duct300_ends(3)[OF r m]]
    by auto
  have fixed: "mmToM (safeNum (Fin 300) (Fin 0)) = Fin (3 / 10)"
    by (simp add: mmToM_def safeNum_def rnd_small)
  have "solveMissingDimension a True (Fin 300) (Fin 0.2) (Fin 1)
      = Some \<lparr> displayValueMm = Fin (x * 1000), sol_dp = Fin (duct300 \<rho> \<mu> x) \<rparr>"
    unfolding solveMissingDimension_def Let_def fixed
    using loop mm[OF x] by (simp add: safeNum_def)
  then show ?thesis using calc[OF x] tol by auto
qed

text \<open>Witness for C4: the component as it starts.\<close>

theorem solveMissingDimension_round_trip_witness:
  "\<exists>sol d. solveMissingDimension office True (Fin 300) (Fin 0.2) (Fin 1) = Some sol
           \<and> dp_per_m (calcRectNums (Fin 300) (displayValueMm sol) (Fin 0.2) (Fin 20) (Fin 50)
                 ''Galvanised steel'') = Fin d
           \<and> \<bar>d - 1\<bar> < 1 / 10000"
  using solveMissingDimension_round_trip[of office] by (simp add: office_def)

end
